theory Spec2Isabelle
  imports
    Main
    "HOL-Library.Char_ord"
    "HOL-Library.List_Lexorder"
    "HOL-Library.Option_ord"
    "HOL-Library.Multiset"
    "HOL-Library.AList"
begin

section \<open>Task store (src/db.ts)\<close>

text \<open>
  The store is an SQLite database. The two tables the scheduler uses are modelled as
  lists of rows, in table order. Every column is TEXT (or INTEGER for the duration), so
  timestamps are strings and are compared the way SQLite compares TEXT values: byte by
  byte, a proper prefix being smaller. That is the order of \<open>List_Lexorder\<close> over
  \<open>Char_ord\<close>. A nullable column is an \<open>option\<close>; \<open>Option_ord\<close> puts \<open>None\<close> first,
  as SQLite puts NULL first in an ascending \<open>ORDER BY\<close>.

  The column \<open>id\<close> of \<open>scheduled_tasks\<close> is called \<open>tid\<close> here, the columns \<open>status\<close>,
  \<open>result\<close> and \<open>error\<close> of \<open>task_run_logs\<close> carry the prefix \<open>log_\<close>.
\<close>

record ScheduledTask =
  tid :: string
  group_folder :: string
  chat_jid :: string
  prompt :: string
  schedule_type :: string
  schedule_value :: string
  context_mode :: string
  next_run :: "string option"
  last_run :: "string option"
  last_result :: "string option"
  status :: string
  created_at :: string

record TaskRunLog =
  task_id :: string
  run_at :: string
  duration_ms :: int
  log_status :: string
  log_result :: "string option"
  log_error :: "string option"

record database =
  scheduled_tasks :: "ScheduledTask list"
  task_run_logs :: "TaskRunLog list"

text \<open>\<open>SELECT * FROM scheduled_tasks WHERE id = ?\<close> with \<open>.get\<close>: the first matching row.\<close>

definition getTaskById :: "database \<Rightarrow> string \<Rightarrow> ScheduledTask option" where
  "getTaskById db i = find (\<lambda>t. tid t = i) (scheduled_tasks db)"

text \<open>
  \<open>deleteTask\<close>: the run logs of the task go first, then the task row.
\<close>

definition deleteTask :: "string \<Rightarrow> database \<Rightarrow> database" where
  "deleteTask i db =
     (let db1 = db\<lparr>task_run_logs := filter (\<lambda>l. task_id l \<noteq> i) (task_run_logs db)\<rparr>
      in db1\<lparr>scheduled_tasks := filter (\<lambda>t. tid t \<noteq> i) (scheduled_tasks db1)\<rparr>)"

text \<open>
  \<open>getDueTasks\<close>: \<open>now\<close> is \<open>new Date().toISOString()\<close>, read by the caller of the model.
  The \<open>WHERE\<close> clause is \<open>due\<close>; \<open>ORDER BY next_run\<close> is a sort on that column (SQLite
  leaves the order of rows with equal keys open; the model keeps table order there).
\<close>

definition due :: "string \<Rightarrow> ScheduledTask \<Rightarrow> bool" where
  "due now t =
     (status t = ''active'' \<and>
      (case next_run t of None \<Rightarrow> False | Some r \<Rightarrow> r \<le> now))"

definition getDueTasks :: "string \<Rightarrow> database \<Rightarrow> ScheduledTask list" where
  "getDueTasks now db = sort_key next_run (filter (due now) (scheduled_tasks db))"

text \<open>
  \<open>updateTaskAfterRun\<close>: one \<open>UPDATE\<close> over the rows whose id matches;
  \<open>CASE WHEN ? IS NULL THEN 'completed' ELSE status END\<close> is the \<open>case\<close> on \<open>nextRun\<close>.
\<close>

definition afterRun ::
  "string option \<Rightarrow> string \<Rightarrow> string \<Rightarrow> ScheduledTask \<Rightarrow> ScheduledTask" where
  "afterRun nextRun now lastResult t =
     t\<lparr>next_run := nextRun,
       last_run := Some now,
       last_result := Some lastResult,
       status := (case nextRun of None \<Rightarrow> ''completed'' | Some _ \<Rightarrow> status t)\<rparr>"

definition updateTaskAfterRun ::
  "string \<Rightarrow> string option \<Rightarrow> string \<Rightarrow> string \<Rightarrow> database \<Rightarrow> database" where
  "updateTaskAfterRun i nextRun lastResult now db =
     db\<lparr>scheduled_tasks :=
          map (\<lambda>t. if tid t = i then afterRun nextRun now lastResult t else t)
            (scheduled_tasks db)\<rparr>"

text \<open>
  \<open>getTaskRunLogs\<close>: newest first, at most \<open>limit\<close> rows (a negative \<open>LIMIT\<close> is no limit
  in SQLite).
\<close>

definition getTaskRunLogs :: "database \<Rightarrow> string \<Rightarrow> int \<Rightarrow> TaskRunLog list" where
  "getTaskRunLogs db taskId limit =
     (let rows = rev (sort_key run_at (filter (\<lambda>l. task_id l = taskId) (task_run_logs db)))
      in if limit < 0 then rows else take (nat limit) rows)"

subsection \<open>Example rows\<close>

definition task1 :: ScheduledTask where
  "task1 = \<lparr>tid = ''t1'', group_folder = ''main'', chat_jid = ''1@g.us'',
     prompt = ''report'', schedule_type = ''once'',
     schedule_value = ''2026-02-01T15:30:00'', context_mode = ''isolated'',
     next_run = Some ''2026-02-01T15:30:00.000Z'', last_run = None, last_result = None,
     status = ''active'', created_at = ''2026-01-01T00:00:00.000Z''\<rparr>"

definition task2 :: ScheduledTask where
  "task2 = \<lparr>tid = ''t2'', group_folder = ''family'', chat_jid = ''2@g.us'',
     prompt = ''weather'', schedule_type = ''interval'',
     schedule_value = ''300000'', context_mode = ''group'',
     next_run = Some ''2026-01-15T08:00:00.000Z'', last_run = None, last_result = None,
     status = ''active'', created_at = ''2026-01-02T00:00:00.000Z''\<rparr>"

definition task3 :: ScheduledTask where
  "task3 = \<lparr>tid = ''t3'', group_folder = ''family'', chat_jid = ''2@g.us'',
     prompt = ''digest'', schedule_type = ''cron'',
     schedule_value = ''0 9 * * *'', context_mode = ''group'',
     next_run = Some ''2026-01-10T09:00:00.000Z'', last_run = None, last_result = None,
     status = ''paused'', created_at = ''2026-01-03T00:00:00.000Z''\<rparr>"

definition log1 :: TaskRunLog where
  "log1 = \<lparr>task_id = ''t1'', run_at = ''2026-01-05T00:00:00.000Z'', duration_ms = 1200,
     log_status = ''success'', log_result = Some ''ok'', log_error = None\<rparr>"

definition log2 :: TaskRunLog where
  "log2 = \<lparr>task_id = ''t2'', run_at = ''2026-01-06T00:00:00.000Z'', duration_ms = 900,
     log_status = ''error'', log_result = None, log_error = Some ''timeout''\<rparr>"

definition db0 :: database where
  "db0 = \<lparr>scheduled_tasks = [task1, task2, task3], task_run_logs = [log1, log2]\<rparr>"

section \<open>Container pool (src/container-pool.ts)\<close>

text \<open>
  The module keeps one JavaScript \<open>Map\<close> from group folder to a \<open>WarmEntry\<close> object.
  The error listener of a process writes to its entry whether or not the pool still
  holds it, and both listeners compare the pooled object with their own by identity
  (\<open>pool.get(groupFolder) === entry\<close>), so entries live in a store and the pool holds
  references into it. The \<open>Map\<close> is an association list in insertion order, with
  \<open>AList.update\<close> for \<open>set\<close> and \<open>AList.delete\<close> for \<open>delete\<close>.

  A process handle, a timer and an entry reference are natural numbers handed out by
  three counters. \<open>timers\<close> holds the pending \<open>setTimeout\<close> callbacks, each of which is
  \<open>evict\<close> of a group; \<open>listeners\<close> holds, for a process, the group and the entry that the
  closures of its \<open>close\<close> and \<open>error\<close> listeners captured. What the pool does to the
  outside (spawning, closing stdin, signalling) is appended to \<open>trace\<close>, and so is every
  \<open>close\<close> and \<open>error\<close> event that a spawned process delivers. Logging is left out.

  \<open>spawn\<close> returns a handle also when the runtime cannot be started: Node reports that
  through the \<open>error\<close> event, after the caller has returned. \<open>CONTAINER_POOL_MAX_IDLE\<close>
  is imported from the configuration and is a parameter of the model.
\<close>

record WarmEntry =
  process :: nat
  createdAt :: int
  idleTimer :: "nat option"
  dead :: bool

datatype effect =
    Spawn nat "string list"
  | StdinEnd nat
  | Kill nat string
  | Closed nat
  | Errored nat

record pool_state =
  pool :: "(string \<times> nat) list"
  store :: "nat \<Rightarrow> WarmEntry"
  timers :: "nat \<Rightarrow> string option"
  listeners :: "nat \<Rightarrow> (string \<times> nat) option"
  nextProc :: nat
  nextTimer :: nat
  nextRef :: nat
  trace :: "effect list"

definition empty_pool :: pool_state where
  "empty_pool =
     \<lparr>pool = [],
      store = (\<lambda>_. \<lparr>process = 0, createdAt = 0, idleTimer = None, dead = False\<rparr>),
      timers = (\<lambda>_. None), listeners = (\<lambda>_. None),
      nextProc = 0, nextTimer = 0, nextRef = 0, trace = []\<rparr>"

text \<open>\<open>if (entry.idleTimer) clearTimeout(entry.idleTimer)\<close>\<close>

definition clearTimeout :: "nat option \<Rightarrow> (nat \<Rightarrow> string option) \<Rightarrow> (nat \<Rightarrow> string option)" where
  "clearTimeout t ts = (case t of None \<Rightarrow> ts | Some k \<Rightarrow> ts(k := None))"

definition acquireWarmContainer :: "string \<Rightarrow> pool_state \<Rightarrow> nat option \<times> pool_state" where
  "acquireWarmContainer groupFolder st =
     (case map_of (pool st) groupFolder of
        None \<Rightarrow> (None, st)
      | Some r \<Rightarrow>
          let entry = store st r in
          if dead entry
          then (None, st\<lparr>pool := AList.delete groupFolder (pool st)\<rparr>)
          else (Some (process entry),
                st\<lparr>timers := clearTimeout (idleTimer entry) (timers st),
                   pool := AList.delete groupFolder (pool st)\<rparr>))"

definition warmContainer ::
  "int \<Rightarrow> string \<Rightarrow> string list \<Rightarrow> int \<Rightarrow> pool_state \<Rightarrow> pool_state" where
  "warmContainer maxIdle groupFolder containerArgs now st =
     (if map_of (pool st) groupFolder \<noteq> None then st
      else
        let proc = nextProc st;
            r = nextRef st;
            tm = (if maxIdle > 0 then Some (nextTimer st) else None);
            entry = \<lparr>process = proc, createdAt = now, idleTimer = tm, dead = False\<rparr>
        in st\<lparr>trace := trace st @ [Spawn proc containerArgs],
              nextProc := Suc proc,
              timers := (case tm of None \<Rightarrow> timers st
                         | Some k \<Rightarrow> (timers st)(k := Some groupFolder)),
              nextTimer := (case tm of None \<Rightarrow> nextTimer st | Some k \<Rightarrow> Suc k),
              store := (store st)(r := entry),
              nextRef := Suc r,
              listeners := (listeners st)(proc := Some (groupFolder, r)),
              pool := AList.update groupFolder r (pool st)\<rparr>)"

definition evict :: "string \<Rightarrow> pool_state \<Rightarrow> pool_state" where
  "evict groupFolder st =
     (case map_of (pool st) groupFolder of
        None \<Rightarrow> st
      | Some r \<Rightarrow>
          let entry = store st r;
              st1 = st\<lparr>timers := clearTimeout (idleTimer entry) (timers st),
                       pool := AList.delete groupFolder (pool st)\<rparr>
          in if \<not> dead entry
             then st1\<lparr>trace := trace st1 @
                         [StdinEnd (process entry), Kill (process entry) ''SIGTERM'']\<rparr>
             else st1)"

text \<open>\<open>shutdownPool\<close> evicts the keys the map holds when it is called, in map order.\<close>

definition shutdownPool :: "pool_state \<Rightarrow> pool_state" where
  "shutdownPool st = fold evict (map fst (pool st)) st"

text \<open>
  The bodies of the two listeners that \<open>warmContainer\<close> registers, for the group and the
  entry they captured.
\<close>

definition on_close :: "string \<Rightarrow> nat \<Rightarrow> pool_state \<Rightarrow> pool_state" where
  "on_close groupFolder r st =
     (if map_of (pool st) groupFolder = Some r
      then st\<lparr>pool := AList.delete groupFolder (pool st)\<rparr>
      else st)"

definition on_error :: "string \<Rightarrow> nat \<Rightarrow> pool_state \<Rightarrow> pool_state" where
  "on_error groupFolder r st =
     (let st1 = st\<lparr>store := (store st)(r := (store st r)\<lparr>dead := True\<rparr>)\<rparr>
      in if map_of (pool st1) groupFolder = Some r
         then st1\<lparr>pool := AList.delete groupFolder (pool st1)\<rparr>
         else st1)"

text \<open>
  What can happen to the pool, one synchronous step at a time: a call of one of its
  exported functions, a pending idle timer that fires (it is then no longer pending and
  runs \<open>evict\<close>), and a \<open>close\<close> or \<open>error\<close> event of a process. An event of a process that
  was never spawned, or a timer that is not pending, is nothing.
\<close>

datatype event =
    Warm string "string list" int
  | Acquire string
  | TimerFires nat
  | ProcClose nat
  | ProcError nat
  | Shutdown

fun step :: "int \<Rightarrow> event \<Rightarrow> pool_state \<Rightarrow> pool_state" where
  "step maxIdle (Warm g args now) st = warmContainer maxIdle g args now st"
| "step maxIdle (Acquire g) st = snd (acquireWarmContainer g st)"
| "step maxIdle (TimerFires k) st =
     (case timers st k of
        None \<Rightarrow> st
      | Some g \<Rightarrow> evict g (st\<lparr>timers := (timers st)(k := None)\<rparr>))"
| "step maxIdle (ProcClose p) st =
     (case listeners st p of
        None \<Rightarrow> st
      | Some (g, r) \<Rightarrow> on_close g r (st\<lparr>trace := trace st @ [Closed p]\<rparr>))"
| "step maxIdle (ProcError p) st =
     (case listeners st p of
        None \<Rightarrow> st
      | Some (g, r) \<Rightarrow> on_error g r (st\<lparr>trace := trace st @ [Errored p]\<rparr>))"
| "step maxIdle Shutdown st = shutdownPool st"

definition run :: "int \<Rightarrow> event list \<Rightarrow> pool_state \<Rightarrow> pool_state" where
  "run maxIdle evs st = fold (step maxIdle) evs st"

subsection \<open>Processes that die\<close>

text \<open>
  A process can die at any moment: the runtime fails to start, the container exits or is
  killed from outside. The pool does not see the death itself. Node tells it later, through
  the \<open>error\<close> or the \<open>close\<close> event, and until that event is delivered nothing in the pool
  has changed. \<open>Dies p\<close> is the death of a spawned process \<open>p\<close>, recorded next to the pool;
  every other event of the world is an event of the pool.
\<close>

record world =
  pool_of :: pool_state
  died :: "nat list"

datatype world_event =
    Pool event
  | Dies nat

fun world_step :: "int \<Rightarrow> world_event \<Rightarrow> world \<Rightarrow> world" where
  "world_step maxIdle (Pool ev) w = w\<lparr>pool_of := step maxIdle ev (pool_of w)\<rparr>"
| "world_step maxIdle (Dies p) w =
     (if p < nextProc (pool_of w) then w\<lparr>died := died w @ [p]\<rparr> else w)"

definition world_run :: "int \<Rightarrow> world_event list \<Rightarrow> world \<Rightarrow> world" where
  "world_run maxIdle evs w = fold (world_step maxIdle) evs w"

definition world0 :: world where
  "world0 = \<lparr>pool_of = empty_pool, died = []\<rparr>"

subsection \<open>Reading the trace\<close>

text \<open>
  \<open>about\<close> is the process an entry of the trace concerns. A process is \<open>untouched\<close> when
  the trace holds its spawn and nothing else about it: its stdin was not closed, no
  signal was sent to it, and it delivered no \<open>close\<close> or \<open>error\<close> event.
\<close>

fun about :: "effect \<Rightarrow> nat" where
  "about (Spawn p _) = p"
| "about (StdinEnd p) = p"
| "about (Kill p _) = p"
| "about (Closed p) = p"
| "about (Errored p) = p"

fun is_spawn :: "effect \<Rightarrow> bool" where
  "is_spawn (Spawn _ _) = True"
| "is_spawn _ = False"

definition history :: "nat \<Rightarrow> effect list \<Rightarrow> effect list" where
  "history p tr = filter (\<lambda>e. about e = p) tr"

definition untouched :: "nat \<Rightarrow> effect list \<Rightarrow> bool" where
  "untouched p tr \<longleftrightarrow> history p tr \<noteq> [] \<and> list_all is_spawn (history p tr)"

text \<open>The number of processes spawned so far, and the number of map entries of a group.\<close>

definition spawns :: "effect list \<Rightarrow> nat" where
  "spawns tr = length (filter is_spawn tr)"

definition slots :: "string \<Rightarrow> pool_state \<Rightarrow> nat" where
  "slots g st = length (filter (\<lambda>e. fst e = g) (pool st))"

text \<open>A trace is \<open>gentle\<close> when every signal it sends is \<open>SIGTERM\<close>.\<close>

definition gentle :: "effect list \<Rightarrow> bool" where
  "gentle tr = list_all (\<lambda>e. case e of Kill _ s \<Rightarrow> s = ''SIGTERM'' | _ \<Rightarrow> True) tr"

subsection \<open>The invariant of the pool\<close>

text \<open>
  In every state the pool reaches: the map has one entry per key; a pooled entry is not
  dead, its process is untouched, and the listeners of that process captured this very
  group and entry; listeners exist only for spawned processes and allocated entries, and
  an entry keeps the process it was created with; the trace speaks of spawned processes
  only.
\<close>

definition pool_inv :: "pool_state \<Rightarrow> bool" where
  "pool_inv st \<longleftrightarrow>
     distinct (map fst (pool st)) \<and>
     (\<forall>g r. (g, r) \<in> set (pool st) \<longrightarrow>
        \<not> dead (store st r) \<and>
        listeners st (process (store st r)) = Some (g, r) \<and>
        untouched (process (store st r)) (trace st)) \<and>
     (\<forall>p g r. listeners st p = Some (g, r) \<longrightarrow>
        p < nextProc st \<and> r < nextRef st \<and> process (store st r) = p) \<and>
     (\<forall>e \<in> set (trace st). about e < nextProc st)"

subsection \<open>Example states\<close>

text \<open>
  One warm container for group \<open>g\<close> with an idle limit of one second; the same after its
  idle timer fired; and a hand-made state whose map still holds a dead entry.
\<close>

definition warm1 :: pool_state where
  "warm1 = warmContainer 1000 ''g'' [''run''] 7 empty_pool"

definition evicted1 :: pool_state where
  "evicted1 = run 1000 [Warm ''g'' [''run''] 7, TimerFires 0] empty_pool"

definition stale1 :: pool_state where
  "stale1 = empty_pool\<lparr>pool := [(''g'', 0)],
     store := (\<lambda>_. \<lparr>process = 0, createdAt = 7, idleTimer = None, dead = True\<rparr>)\<rparr>"

section \<open>Sandbox side of the IPC bridge (container/agent-runner/src/ipc-mcp.ts)\<close>

text \<open>
  The sandbox and the host share a directory. Only regular files matter here, so the
  file system is a map from path to content. \<open>path.join\<close> is concatenation with a
  slash: the directories are constants and the file names are generated by the module
  (digits, a dash and base-36 digits), so there is nothing for it to normalise.
\<close>

type_synonym fs = "string \<Rightarrow> string option"

definition path_join :: "string \<Rightarrow> string \<Rightarrow> string" where
  "path_join a b = a @ ''/'' @ b"

definition IPC_DIR :: string where "IPC_DIR = ''/workspace/ipc''"

definition MESSAGES_DIR :: string where "MESSAGES_DIR = path_join IPC_DIR ''messages''"

definition TASKS_DIR :: string where "TASKS_DIR = path_join IPC_DIR ''tasks''"

definition EMAIL_RESULTS_DIR :: string where
  "EMAIL_RESULTS_DIR = path_join IPC_DIR ''email_results''"

subsection \<open>Waiting for a result\<close>

text \<open>
  \<open>waitForEmailResult\<close> returns what \<open>JSON.parse\<close> gave, or an object
  \<open>{success: false, error}\<close>, which is \<open>Failure\<close> with the error text. \<open>JSON.parse\<close> is a
  parameter: \<open>Inr\<close> for the value, \<open>Inl\<close> for the text of the exception it throws.

  The loop counts \<open>elapsed\<close> in steps of 500 and polls while \<open>elapsed < maxWait\<close>. Between
  two polls it sleeps, and the rest of the world may change the files meanwhile: \<open>env t\<close>
  is what happens to the file system during the sleep that starts at count \<open>t\<close>. The
  calls of one iteration (\<open>existsSync\<close>, \<open>readFileSync\<close>, \<open>unlinkSync\<close>) are synchronous
  and see one file system, so reading and unlinking a file that was found do not fail
  and the \<open>catch\<close> branch is that of a parse error. The recursion ends because
  \<open>maxWait - elapsed\<close> decreases; the function is total.
\<close>

datatype 'j outcome = Result 'j | Failure string

definition pollInterval :: int where "pollInterval = 500"

function waitLoop ::
  "(string \<Rightarrow> string + 'j) \<Rightarrow> (int \<Rightarrow> fs \<Rightarrow> fs) \<Rightarrow> string \<Rightarrow> int \<Rightarrow> int \<Rightarrow> fs
     \<Rightarrow> 'j outcome \<times> fs" where
  "waitLoop parse env resultFile maxWait elapsed files =
     (if elapsed < maxWait then
        (case files resultFile of
           Some content \<Rightarrow>
             (case parse content of
                Inr result \<Rightarrow> (Result result, files(resultFile := None))
              | Inl err \<Rightarrow> (Failure (''Failed to read result: '' @ err), files))
         | None \<Rightarrow>
             waitLoop parse env resultFile maxWait (elapsed + pollInterval) (env elapsed files))
      else (Failure ''Request timed out'', files))"
  by pat_completeness auto

termination
  by (relation "measure (\<lambda>(parse, env, resultFile, maxWait, elapsed, files). nat (maxWait - elapsed))")
    (auto simp: pollInterval_def)

declare waitLoop.simps [simp del]

definition resultFile :: "string \<Rightarrow> string" where
  "resultFile requestId = path_join EMAIL_RESULTS_DIR (requestId @ ''.json'')"

definition waitForEmailResult ::
  "(string \<Rightarrow> string + 'j) \<Rightarrow> (int \<Rightarrow> fs \<Rightarrow> fs) \<Rightarrow> string \<Rightarrow> int \<Rightarrow> fs \<Rightarrow> 'j outcome \<times> fs" where
  "waitForEmailResult parse env requestId maxWait files =
     waitLoop parse env (resultFile requestId) maxWait 0 files"

text \<open>
  The file system as the \<open>k\<close>-th poll finds it (the first poll is number 0), and the
  number of polls a wait of \<open>maxWait\<close> makes when it finds nothing: the counts
  \<open>0, 500, 1000, \<dots>\<close> below \<open>maxWait\<close>.
\<close>

primrec fs_at :: "(int \<Rightarrow> fs \<Rightarrow> fs) \<Rightarrow> fs \<Rightarrow> nat \<Rightarrow> fs" where
  "fs_at env files 0 = files"
| "fs_at env files (Suc k) = env (pollInterval * int k) (fs_at env files k)"

definition polls :: "int \<Rightarrow> nat" where
  "polls maxWait = nat ((maxWait + 499) div 500)"

subsection \<open>Writing an envelope\<close>

text \<open>
  \<open>writeIpcFile\<close> is a sequence of three file-system calls. To say what another process
  can see while they run, each call has the list of file systems it passes through,
  ending in its result: \<open>writeFileSync\<close> creates or truncates the file and the content
  then grows, so every prefix of the content can be seen at its path; \<open>renameSync\<close> is one
  step; \<open>mkdirSync\<close> with \<open>recursive\<close> does not touch any file.

  \<open>Date.now()\<close>, the six base-36 digits cut from \<open>Math.random()\<close> and
  \<open>new Date().toISOString()\<close> are read from a \<open>clock\<close>; \<open>JSON.stringify(data, null, 2)\<close> is
  the parameter \<open>stringify\<close>.
\<close>

datatype fs_op =
    Mkdir string
  | WriteFile string string
  | Rename string string

fun observable :: "fs_op \<Rightarrow> fs \<Rightarrow> fs list" where
  "observable (Mkdir dir) files = [files]"
| "observable (WriteFile path content) files =
     map (\<lambda>n. files(path := Some (take n content))) [0..<Suc (length content)]"
| "observable (Rename old new) files = [(files(new := files old))(old := None)]"

definition exec :: "fs_op \<Rightarrow> fs \<Rightarrow> fs" where
  "exec op files = last (observable op files)"

fun states :: "fs_op list \<Rightarrow> fs \<Rightarrow> fs list" where
  "states [] files = []"
| "states (op # ops) files = observable op files @ states ops (exec op files)"

fun decimal :: "nat \<Rightarrow> string" where
  "decimal n =
     (if n < 10 then [''0123456789'' ! n]
      else decimal (n div 10) @ [''0123456789'' ! (n mod 10)])"

declare decimal.simps [simp del]

record clock =
  dateNow :: nat
  random36 :: string
  isoNow :: string

definition ipcFilename :: "clock \<Rightarrow> string" where
  "ipcFilename w = decimal (dateNow w) @ ''-'' @ random36 w @ ''.json''"

definition writeIpcFile_ops :: "clock \<Rightarrow> ('d \<Rightarrow> string) \<Rightarrow> string \<Rightarrow> 'd \<Rightarrow> fs_op list" where
  "writeIpcFile_ops w stringify dir data =
     (let filename = ipcFilename w;
          filepath = path_join dir filename;
          tempPath = filepath @ ''.tmp''
      in [Mkdir dir, WriteFile tempPath (stringify data), Rename tempPath filepath])"

definition writeIpcFile ::
  "clock \<Rightarrow> ('d \<Rightarrow> string) \<Rightarrow> string \<Rightarrow> 'd \<Rightarrow> fs \<Rightarrow> string \<times> fs" where
  "writeIpcFile w stringify dir data files =
     (ipcFilename w, fold exec (writeIpcFile_ops w stringify dir data) files)"

subsection \<open>The tool \<open>schedule_task\<close>\<close>

text \<open>
  The arguments have passed the zod schema: \<open>schedule_type\<close> and \<open>context_mode\<close> are one
  of their enumerated values (\<open>context_mode\<close> defaults to \<open>group\<close>), \<open>target_group\<close> is
  optional. The fields of the arguments carry the prefix \<open>arg_\<close>, those of the envelope
  the prefix \<open>env_\<close> where the name is taken already. A tool result is its text and
  its \<open>isError\<close> flag.

  \<open>CronExpressionParser.parse\<close> and \<open>new Date\<close> are library code: \<open>cronParses\<close> says
  that the former does not throw, \<open>dateValid\<close> that the time value of the latter is not
  \<open>NaN\<close>.
\<close>

datatype TriggerSource = User | Email | Scheduled_task

record IpcMcpContext =
  chatJid :: string
  groupFolder :: string
  isMain :: bool
  triggerSource :: TriggerSource
  emailEnabled :: bool

datatype schedule_kind = Cron | Interval | Once

datatype context_kind = Group | Isolated

fun schedule_kind_str :: "schedule_kind \<Rightarrow> string" where
  "schedule_kind_str Cron = ''cron''"
| "schedule_kind_str Interval = ''interval''"
| "schedule_kind_str Once = ''once''"

fun context_kind_str :: "context_kind \<Rightarrow> string" where
  "context_kind_str Group = ''group''"
| "context_kind_str Isolated = ''isolated''"

record schedule_args =
  arg_prompt :: string
  arg_schedule_type :: schedule_kind
  arg_schedule_value :: string
  arg_context_mode :: context_kind
  target_group :: "string option"

record task_envelope =
  env_type :: string
  env_prompt :: string
  env_schedule_type :: string
  env_schedule_value :: string
  env_context_mode :: string
  env_groupFolder :: string
  env_chatJid :: string
  createdBy :: string
  env_timestamp :: string

record tool_result =
  content_text :: string
  isError :: bool

record parsers =
  cronParses :: "string \<Rightarrow> bool"
  dateValid :: "string \<Rightarrow> bool"
  json_stringify :: "task_envelope \<Rightarrow> string"

text \<open>
  \<open>parseInt(s, 10)\<close>: leading white space is skipped, one sign is read, then the longest
  run of decimal digits; what follows the digits is ignored, and no digit at all gives
  \<open>NaN\<close>, here \<open>None\<close>. (White space outside ASCII is not modelled. The result is a
  double in JavaScript; rounding does not change whether it is positive.)
\<close>

definition isSpace :: "char \<Rightarrow> bool" where
  "isSpace c = (c \<in> set [CHR '' '', CHR 0x09, CHR 0x0A, CHR 0x0B, CHR 0x0C, CHR 0x0D])"

definition isDigit :: "char \<Rightarrow> bool" where
  "isDigit c = (c \<in> set ''0123456789'')"

definition digitVal :: "char \<Rightarrow> int" where
  "digitVal c = int (length (takeWhile (\<lambda>d. d \<noteq> c) ''0123456789''))"

definition parseInt10 :: "string \<Rightarrow> int option" where
  "parseInt10 s =
     (let s1 = dropWhile isSpace s;
          neg = (case s1 of c # _ \<Rightarrow> c = CHR ''-'' | [] \<Rightarrow> False);
          s2 = (case s1 of c # r \<Rightarrow> if c = CHR ''-'' \<or> c = CHR ''+'' then r else s1 | [] \<Rightarrow> s1);
          ds = takeWhile isDigit s2
      in if ds = [] then None
         else Some ((if neg then - 1 else 1) * foldl (\<lambda>a c. 10 * a + digitVal c) 0 ds))"

text \<open>
  The checks at the head of the handler: the error text of the branch that returns
  early, or \<open>None\<close> when the handler goes on. \<open>dq\<close> is the double quote.
\<close>

definition dq :: string where
  "dq = [CHR 0x22]"

definition validate :: "parsers \<Rightarrow> schedule_args \<Rightarrow> string option" where
  "validate ps args =
     (case arg_schedule_type args of
        Cron \<Rightarrow>
          if cronParses ps (arg_schedule_value args) then None
          else Some (''Invalid cron: '' @ dq @ arg_schedule_value args @ dq @
                 ''. Use format like '' @ dq @ ''0 9 * * *'' @ dq @ '' (daily 9am) or '' @
                 dq @ ''*/5 * * * *'' @ dq @ '' (every 5 min).'')
      | Interval \<Rightarrow>
          (case parseInt10 (arg_schedule_value args) of
             None \<Rightarrow> Some (''Invalid interval: '' @ dq @ arg_schedule_value args @ dq @
                 ''. Must be positive milliseconds (e.g., '' @ dq @ ''300000'' @ dq @
                 '' for 5 min).'')
           | Some ms \<Rightarrow>
               if ms \<le> 0
               then Some (''Invalid interval: '' @ dq @ arg_schedule_value args @ dq @
                 ''. Must be positive milliseconds (e.g., '' @ dq @ ''300000'' @ dq @
                 '' for 5 min).'')
               else None)
      | Once \<Rightarrow>
          if dateValid ps (arg_schedule_value args) then None
          else Some (''Invalid timestamp: '' @ dq @ arg_schedule_value args @ dq @
                 ''. Use ISO 8601 format like '' @ dq @ ''2026-02-01T15:30:00.000Z'' @ dq @ ''.''))"

text \<open>
  \<open>isMain && args.target_group ? args.target_group : groupFolder\<close>: an empty
  \<open>target_group\<close> is falsy.
\<close>

definition targetGroup :: "IpcMcpContext \<Rightarrow> schedule_args \<Rightarrow> string" where
  "targetGroup ctx args =
     (case target_group args of
        Some t \<Rightarrow> if isMain ctx \<and> t \<noteq> [] then t else groupFolder ctx
      | None \<Rightarrow> groupFolder ctx)"

definition schedule_task_data :: "clock \<Rightarrow> IpcMcpContext \<Rightarrow> schedule_args \<Rightarrow> task_envelope" where
  "schedule_task_data w ctx args =
     \<lparr>env_type = ''schedule_task'',
      env_prompt = arg_prompt args,
      env_schedule_type = schedule_kind_str (arg_schedule_type args),
      env_schedule_value = arg_schedule_value args,
      env_context_mode = context_kind_str (arg_context_mode args),
      env_groupFolder = targetGroup ctx args,
      env_chatJid = chatJid ctx,
      createdBy = groupFolder ctx,
      env_timestamp = isoNow w\<rparr>"

definition schedule_task ::
  "parsers \<Rightarrow> clock \<Rightarrow> IpcMcpContext \<Rightarrow> schedule_args \<Rightarrow> fs \<Rightarrow> tool_result \<times> fs" where
  "schedule_task ps w ctx args files =
     (case validate ps args of
        Some msg \<Rightarrow> (\<lparr>content_text = msg, isError = True\<rparr>, files)
      | None \<Rightarrow>
          let data = schedule_task_data w ctx args;
              (filename, files') = writeIpcFile w (json_stringify ps) TASKS_DIR data files
          in (\<lparr>content_text = ''Task scheduled ('' @ filename @ ''): '' @
                  schedule_kind_str (arg_schedule_type args) @ '' - '' @
                  arg_schedule_value args,
               isError = False\<rparr>, files'))"

subsection \<open>Example inputs\<close>

definition parse0 :: "string \<Rightarrow> string + string" where
  "parse0 s = (if s = ''{}'' then Inr ''empty object'' else Inl ''SyntaxError'')"

definition arrives :: "string \<Rightarrow> int \<Rightarrow> fs \<Rightarrow> fs" where
  "arrives c t files =
     (if t = 500 then files(''/workspace/ipc/email_results/r1.json'' := Some c) else files)"

definition late :: "string \<Rightarrow> int \<Rightarrow> fs \<Rightarrow> fs" where
  "late c t files =
     (if t = 29500 then files(''/workspace/ipc/email_results/r1.json'' := Some c) else files)"

definition no_files :: fs where
  "no_files = (\<lambda>_. None)"

definition old_files :: fs where
  "old_files = no_files(''/workspace/ipc/tasks/old.json'' := Some ''[]'')"

definition clock1 :: clock where
  "clock1 = \<lparr>dateNow = 1700000000123, random36 = ''k3x9qa'',
             isoNow = ''2023-11-14T22:13:20.123Z''\<rparr>"

definition parsers1 :: parsers where
  "parsers1 = \<lparr>cronParses = (\<lambda>s. s = ''0 9 * * *''),
               dateValid = (\<lambda>s. s = ''2026-02-01T15:30:00''),
               json_stringify = (\<lambda>e. env_groupFolder e @ ''|'' @ env_schedule_type e @ ''|'' @
                                 env_schedule_value e)\<rparr>"

definition family :: IpcMcpContext where
  "family = \<lparr>chatJid = ''2@g.us'', groupFolder = ''family'', isMain = False,
             triggerSource = User, emailEnabled = False\<rparr>"

definition args1 :: schedule_args where
  "args1 = \<lparr>arg_prompt = ''digest'', arg_schedule_type = Cron,
            arg_schedule_value = ''0 9 * * *'', arg_context_mode = Group,
            target_group = Some ''main''\<rparr>"

definition args_5min :: schedule_args where
  "args_5min = \<lparr>arg_prompt = ''ping'', arg_schedule_type = Interval,
            arg_schedule_value = ''5min'', arg_context_mode = Isolated,
            target_group = None\<rparr>"

section \<open>Properties of the task store\<close>

lemma find_filter_neq: "find (\<lambda>t. f t = i) (filter (\<lambda>t. f t \<noteq> i) xs) = None"
  by (induction xs) auto

lemma find_map_upd:
  "find (\<lambda>t. tid t = i) xs = Some t \<Longrightarrow>
   tid (g t) = i \<Longrightarrow>
   find (\<lambda>t. tid t = i) (map (\<lambda>t. if tid t = i then g t else t) xs) = Some (g t)"
  by (induction xs) (auto split: if_splits)

lemma tid_afterRun: "tid (afterRun nr now lr t) = tid t"
  by (simp add: afterRun_def)

lemma find_Some_tid: "find (\<lambda>t. tid t = i) xs = Some t \<Longrightarrow> tid t = i"
  by (induction xs) (auto split: if_splits)

text \<open>
  C5. For a task id present in the store, \<open>updateTaskAfterRun\<close> with \<open>nextRun\<close> null
  sets \<open>next_run\<close> to null and \<open>status\<close> to \<open>completed\<close>, whatever the result of the
  run was; with \<open>nextRun\<close> non-null it stores the given value and leaves \<open>status\<close> as it
  was. In both cases \<open>last_run\<close> and \<open>last_result\<close> are set, and every other column of
  the row is kept.
\<close>

theorem updateTaskAfterRun_spec:
  assumes "getTaskById db i = Some t"
  shows "getTaskById (updateTaskAfterRun i None lastResult now db) i =
           Some (t\<lparr>next_run := None, last_run := Some now,
                   last_result := Some lastResult, status := ''completed''\<rparr>)
       \<and> getTaskById (updateTaskAfterRun i (Some r) lastResult now db) i =
           Some (t\<lparr>next_run := Some r, last_run := Some now,
                   last_result := Some lastResult\<rparr>)"
proof -
  from assms have f: "find (\<lambda>t. tid t = i) (scheduled_tasks db) = Some t"
    by (simp add: getTaskById_def)
  then have ti: "tid t = i" by (rule find_Some_tid)
  have step: "getTaskById (updateTaskAfterRun i nr lastResult now db) i =
                Some (afterRun nr now lastResult t)" for nr
    unfolding getTaskById_def updateTaskAfterRun_def
    using find_map_upd [OF f, of "afterRun nr now lastResult"] ti
    by (simp add: tid_afterRun)
  show ?thesis
    using step [of None] step [of "Some r"] by (simp add: afterRun_def)
qed

theorem updateTaskAfterRun_spec_witness:
  "getTaskById db0 ''t1'' = Some task1
 \<and> status (the (getTaskById (updateTaskAfterRun ''t1'' None ''failed'' ''2026-02-01T15:31:00.000Z'' db0) ''t1'')) = ''completed''
 \<and> next_run (the (getTaskById (updateTaskAfterRun ''t1'' None ''failed'' ''2026-02-01T15:31:00.000Z'' db0) ''t1'')) = None
 \<and> status (the (getTaskById (updateTaskAfterRun ''t1'' (Some ''2026-03-01T00:00:00.000Z'') ''ok'' ''2026-02-01T15:31:00.000Z'' db0) ''t1'')) = ''active''"
proof -
  have h: "getTaskById db0 ''t1'' = Some task1"
    by (simp add: getTaskById_def db0_def task1_def)
  show ?thesis
    using h updateTaskAfterRun_spec [OF h, of "''failed''" "''2026-02-01T15:31:00.000Z''" "''2026-03-01T00:00:00.000Z''"]
      updateTaskAfterRun_spec [OF h, of "''ok''" "''2026-02-01T15:31:00.000Z''" "''2026-03-01T00:00:00.000Z''"]
    by (simp add: task1_def)
qed

text \<open>
  C6. \<open>getDueTasks\<close> at evaluation time \<open>now\<close> returns exactly the rows whose status is
  \<open>active\<close> and whose \<open>next_run\<close> is non-null and at most \<open>now\<close> (each as often as the table
  holds it), ordered by \<open>next_run\<close> ascending.
\<close>

theorem getDueTasks_spec:
  "mset (getDueTasks now db) =
     filter_mset (\<lambda>t. status t = ''active'' \<and> next_run t \<noteq> None \<and> the (next_run t) \<le> now)
       (mset (scheduled_tasks db))
 \<and> sorted (map next_run (getDueTasks now db))
 \<and> sorted (map (\<lambda>t. the (next_run t)) (getDueTasks now db))"
proof -
  have d: "due now = (\<lambda>t. status t = ''active'' \<and> next_run t \<noteq> None \<and> the (next_run t) \<le> now)"
    by (auto simp: due_def fun_eq_iff split: option.splits)
  have m: "mset (getDueTasks now db) = filter_mset (due now) (mset (scheduled_tasks db))"
    by (simp add: getDueTasks_def)
  have s: "sorted (map next_run (getDueTasks now db))"
    by (simp add: getDueTasks_def)
  have nn: "\<forall>t \<in> set (getDueTasks now db). next_run t \<noteq> None"
    by (auto simp: getDueTasks_def due_def split: option.splits)
  have mono: "sorted (map f xs) \<Longrightarrow> \<forall>t \<in> set xs. f t \<noteq> None \<Longrightarrow>
              sorted (map (\<lambda>t. the (f t)) xs)" for f :: "ScheduledTask \<Rightarrow> string option" and xs
    by (induction xs) (auto simp: less_eq_option_def split: option.splits)
  from m d s mono [OF s nn] show ?thesis by simp
qed

lemma getDueTasks_example:
  "getDueTasks ''2026-01-20T00:00:00.000Z'' db0 = [task2]
 \<and> getDueTasks ''2026-03-01T00:00:00.000Z'' db0 = [task2, task1]"
  by (simp add: getDueTasks_def due_def db0_def task1_def task2_def task3_def)

text \<open>
  C8. \<open>deleteTask\<close> removes the task row and every run-log row that refers to it:
  afterwards \<open>getTaskById\<close> finds nothing, \<open>getTaskRunLogs\<close> is empty for any limit, no
  row of either table carries the id, and the rows of other tasks are untouched.
\<close>

theorem deleteTask_spec:
  "getTaskById (deleteTask i db) i = None
 \<and> getTaskRunLogs (deleteTask i db) i limit = []
 \<and> filter (\<lambda>t. tid t = i) (scheduled_tasks (deleteTask i db)) = []
 \<and> filter (\<lambda>l. task_id l = i) (task_run_logs (deleteTask i db)) = []
 \<and> filter (\<lambda>t. tid t \<noteq> i) (scheduled_tasks (deleteTask i db)) =
     filter (\<lambda>t. tid t \<noteq> i) (scheduled_tasks db)
 \<and> filter (\<lambda>l. task_id l \<noteq> i) (task_run_logs (deleteTask i db)) =
     filter (\<lambda>l. task_id l \<noteq> i) (task_run_logs db)"
proof -
  have a: "getTaskById (deleteTask i db) i = None"
    by (simp add: getTaskById_def deleteTask_def find_filter_neq)
  have l: "filter (\<lambda>l. task_id l = i) (task_run_logs (deleteTask i db)) = []"
    by (simp add: deleteTask_def)
  have b: "getTaskRunLogs (deleteTask i db) i limit = []"
    unfolding getTaskRunLogs_def l by simp
  have c: "filter (\<lambda>t. tid t = i) (scheduled_tasks (deleteTask i db)) = []"
    by (simp add: deleteTask_def)
  have d: "filter (\<lambda>t. tid t \<noteq> i) (scheduled_tasks (deleteTask i db)) =
           filter (\<lambda>t. tid t \<noteq> i) (scheduled_tasks db)"
    by (simp add: deleteTask_def)
  have e: "filter (\<lambda>l. task_id l \<noteq> i) (task_run_logs (deleteTask i db)) =
           filter (\<lambda>l. task_id l \<noteq> i) (task_run_logs db)"
    by (simp add: deleteTask_def)
  from a b c l d e show ?thesis by simp
qed

section \<open>Properties of the container pool\<close>

lemma update_fresh: "map_of al k = None \<Longrightarrow> AList.update k v al = al @ [(k, v)]"
  by (induction al) (auto split: if_splits)

lemma set_delete: "set (AList.delete k al) = {e \<in> set al. fst e \<noteq> k}"
  by (auto simp: AList.delete_eq)

lemma history_fresh: "\<forall>e \<in> set tr. about e < n \<Longrightarrow> history n tr = []"
  by (auto simp: history_def filter_empty_conv)

lemma history_append: "history p (tr @ tr') = history p tr @ history p tr'"
  by (simp add: history_def)

lemma pool_inv_empty: "pool_inv empty_pool"
  by (simp add: pool_inv_def empty_pool_def)

lemma pool_inv_warm:
  assumes "pool_inv st"
  shows "pool_inv (warmContainer m g args now st)"
proof (cases "map_of (pool st) g")
  case (Some r)
  then show ?thesis using assms by (simp add: warmContainer_def)
next
  case None
  let ?p = "nextProc st" and ?r = "nextRef st"
  from assms have d: "distinct (map fst (pool st))"
    and i1: "\<And>g r. (g, r) \<in> set (pool st) \<Longrightarrow> \<not> dead (store st r) \<and>
        listeners st (process (store st r)) = Some (g, r) \<and>
        untouched (process (store st r)) (trace st)"
    and i2: "\<And>p g r. listeners st p = Some (g, r) \<Longrightarrow>
        p < nextProc st \<and> r < nextRef st \<and> process (store st r) = p"
    and i3: "\<forall>e \<in> set (trace st). about e < nextProc st"
    by (auto simp: pool_inv_def)
  have old: "r < ?r \<and> process (store st r) < ?p" if "(g', r) \<in> set (pool st)" for g' r
    using i1 [OF that] i2 by blast
  have h: "history ?p (trace st) = []" using i3 by (rule history_fresh)
  have gk: "g \<notin> fst ` set (pool st)" using None by (simp add: map_of_eq_None_iff)
  define st' where "st' = warmContainer m g args now st"
  have pool': "pool st' = pool st @ [(g, ?r)]"
    and store': "store st' = (store st)(?r := \<lparr>process = ?p, createdAt = now,
          idleTimer = (if m > 0 then Some (nextTimer st) else None), dead = False\<rparr>)"
    and lis': "listeners st' = (listeners st)(?p := Some (g, ?r))"
    and np': "nextProc st' = Suc ?p" and nr': "nextRef st' = Suc ?r"
    and tr': "trace st' = trace st @ [Spawn ?p args]"
    using None by (simp_all add: st'_def warmContainer_def Let_def update_fresh)
  have c1: "distinct (map fst (pool st'))" using d gk by (simp add: pool')
  have c2: "\<not> dead (store st' r) \<and> listeners st' (process (store st' r)) = Some (g', r) \<and>
        untouched (process (store st' r)) (trace st')" if "(g', r) \<in> set (pool st')" for g' r
  proof (cases "(g', r) \<in> set (pool st)")
    case True
    from old [OF True] i1 [OF True] show ?thesis
      by (simp add: store' lis' tr' untouched_def history_append) (simp add: history_def)
  next
    case False
    with that have "g' = g" "r = ?r" by (auto simp: pool')
    then show ?thesis
      by (simp add: store' lis' tr' untouched_def history_append h) (simp add: history_def)
  qed
  have c3: "p < nextProc st' \<and> r < nextRef st' \<and> process (store st' r) = p"
    if "listeners st' p = Some (g', r)" for p g' r
    using that i2 [of p g' r] by (auto simp: lis' np' nr' store' split: if_splits)
  have c4: "\<forall>e \<in> set (trace st'). about e < nextProc st'"
    using i3 by (auto simp: tr' np' less_Suc_eq)
  show ?thesis
    unfolding pool_inv_def st'_def [symmetric] using c1 c2 c3 c4 by blast
qed

lemma pool_inv_owner:
  assumes "pool_inv st" "listeners st p = Some (g, r)" "(g', r') \<in> set (pool st)"
    and "process (store st r') = p \<or> r' = r"
  shows "g' = g \<and> r' = r"
  using assms unfolding pool_inv_def by (metis option.inject prod.inject)

lemma pool_inv_listed:
  assumes "pool_inv st" "(g, r) \<in> set (pool st)"
  shows "listeners st (process (store st r)) = Some (g, r)"
    and "process (store st r) < nextProc st"
  using assms unfolding pool_inv_def by blast+

lemma pool_inv_remove:
  assumes inv: "pool_inv st"
    and sub: "set (pool st') \<subseteq> set (pool st)"
    and dis: "distinct (map fst (pool st'))"
    and pr: "\<And>r. process (store st' r) = process (store st r)"
    and dd: "\<And>g r. (g, r) \<in> set (pool st') \<Longrightarrow> \<not> dead (store st' r)"
    and li: "listeners st' = listeners st"
    and np: "nextProc st' = nextProc st" and nr: "nextRef st' = nextRef st"
    and tr: "trace st' = trace st @ tr'"
    and fresh: "\<And>e. e \<in> set tr' \<Longrightarrow> about e < nextProc st"
    and away: "\<And>e g r. e \<in> set tr' \<Longrightarrow> (g, r) \<in> set (pool st') \<Longrightarrow>
                 about e \<noteq> process (store st r)"
  shows "pool_inv st'"
proof -
  from inv have i1: "\<And>g r. (g, r) \<in> set (pool st) \<Longrightarrow>
        listeners st (process (store st r)) = Some (g, r) \<and>
        untouched (process (store st r)) (trace st)"
    and i2: "\<And>p g r. listeners st p = Some (g, r) \<Longrightarrow>
        p < nextProc st \<and> r < nextRef st \<and> process (store st r) = p"
    and i3: "\<forall>e \<in> set (trace st). about e < nextProc st"
    by (auto simp: pool_inv_def)
  have c2: "\<not> dead (store st' r) \<and> listeners st' (process (store st' r)) = Some (g, r) \<and>
        untouched (process (store st' r)) (trace st')" if m: "(g, r) \<in> set (pool st')" for g r
  proof -
    from m sub have m0: "(g, r) \<in> set (pool st)" by blast
    have "history (process (store st r)) tr' = []"
      using away [OF _ m] by (auto simp: history_def filter_empty_conv)
    with i1 [OF m0] dd [OF m] show ?thesis
      by (simp add: pr li tr untouched_def history_append)
  qed
  have c3: "p < nextProc st' \<and> r < nextRef st' \<and> process (store st' r) = p"
    if "listeners st' p = Some (g, r)" for p g r
    using that i2 [of p g r] by (simp add: li np nr pr)
  have c4: "\<forall>e \<in> set (trace st'). about e < nextProc st'"
    using i3 fresh by (auto simp: tr np)
  show ?thesis unfolding pool_inv_def using dis c2 c3 c4 by blast
qed

lemma pool_delete_sub: "set (AList.delete g al) \<subseteq> set al"
  by (auto simp: set_delete)

lemma pool_inv_acquire:
  assumes "pool_inv st"
  shows "pool_inv (snd (acquireWarmContainer g st))"
proof (cases "map_of (pool st) g")
  case None
  then show ?thesis using assms by (simp add: acquireWarmContainer_def)
next
  case (Some r)
  from assms have d: "distinct (map fst (pool st))"
    and nd: "\<And>g r. (g, r) \<in> set (pool st) \<Longrightarrow> \<not> dead (store st r)"
    by (auto simp: pool_inv_def)
  show ?thesis
  proof (rule pool_inv_remove [OF assms, where tr' = "[]"])
    show "set (pool (snd (acquireWarmContainer g st))) \<subseteq> set (pool st)"
      using Some by (auto simp: acquireWarmContainer_def Let_def set_delete)
    show "distinct (map fst (pool (snd (acquireWarmContainer g st))))"
      using Some d by (simp add: acquireWarmContainer_def Let_def AList.distinct_delete)
    show "\<not> dead (store (snd (acquireWarmContainer g st)) r')"
      if "(g', r') \<in> set (pool (snd (acquireWarmContainer g st)))" for g' r'
      using that Some nd [of g' r']
      by (auto simp: acquireWarmContainer_def Let_def set_delete split: if_splits)
  qed (use Some in \<open>simp_all add: acquireWarmContainer_def Let_def\<close>)
qed

lemma pool_inv_evict:
  assumes "pool_inv st"
  shows "pool_inv (evict g st)"
proof (cases "map_of (pool st) g")
  case None
  then show ?thesis using assms by (simp add: evict_def)
next
  case (Some r)
  from assms have d: "distinct (map fst (pool st))"
    and nd: "\<And>g r. (g, r) \<in> set (pool st) \<Longrightarrow> \<not> dead (store st r)"
    by (auto simp: pool_inv_def)
  from Some have m: "(g, r) \<in> set (pool st)" by (rule map_of_SomeD)
  let ?p = "process (store st r)"
  let ?tr = "if dead (store st r) then [] else [StdinEnd ?p, Kill ?p ''SIGTERM'']"
  have po: "pool (evict g st) = AList.delete g (pool st)"
    using Some by (simp add: evict_def Let_def)
  show ?thesis
  proof (rule pool_inv_remove [OF assms, where tr' = ?tr])
    show "set (pool (evict g st)) \<subseteq> set (pool st)"
      by (simp add: po pool_delete_sub)
    show "distinct (map fst (pool (evict g st)))"
      using d by (simp add: po AList.distinct_delete)
    show "\<not> dead (store (evict g st) r')" if "(g', r') \<in> set (pool (evict g st))" for g' r'
      using that Some nd [of g' r'] by (auto simp: po evict_def Let_def set_delete)
    show "about e < nextProc st" if "e \<in> set ?tr" for e
      using that pool_inv_listed(2) [OF assms m] by (auto split: if_splits)
    show "about e \<noteq> process (store st r')"
      if "e \<in> set ?tr" "(g', r') \<in> set (pool (evict g st))" for e g' r'
    proof
      assume eq: "about e = process (store st r')"
      from that(2) have m': "(g', r') \<in> set (pool st)" and ne: "g' \<noteq> g"
        by (auto simp: po set_delete)
      from that(1) eq have "process (store st r') = ?p" by (auto split: if_splits)
      with pool_inv_owner [OF assms pool_inv_listed(1) [OF assms m] m'] ne
      show False by simp
    qed
  qed (use Some in \<open>simp_all add: evict_def Let_def\<close>)
qed

lemma pool_inv_timers: "pool_inv (st\<lparr>timers := t\<rparr>) = pool_inv st"
  by (simp add: pool_inv_def)

lemma pool_inv_shutdown:
  assumes "pool_inv st"
  shows "pool_inv (shutdownPool st)"
proof -
  have "pool_inv s \<Longrightarrow> pool_inv (fold evict gs s)" for gs s
    by (induction gs arbitrary: s) (simp_all add: pool_inv_evict)
  with assms show ?thesis by (simp add: shutdownPool_def)
qed

lemma pool_inv_close:
  assumes inv: "pool_inv st" and l: "listeners st p = Some (g, r)"
  shows "pool_inv (on_close g r (st\<lparr>trace := trace st @ [Closed p]\<rparr>))"
proof -
  let ?st' = "on_close g r (st\<lparr>trace := trace st @ [Closed p]\<rparr>)"
  from inv have d: "distinct (map fst (pool st))"
    and nd: "\<And>g r. (g, r) \<in> set (pool st) \<Longrightarrow> \<not> dead (store st r)"
    and i2: "\<And>p g r. listeners st p = Some (g, r) \<Longrightarrow> p < nextProc st"
    by (auto simp: pool_inv_def)
  have po: "pool ?st' = (if map_of (pool st) g = Some r
                          then AList.delete g (pool st) else pool st)"
    by (simp add: on_close_def)
  show ?thesis
  proof (rule pool_inv_remove [OF inv, where tr' = "[Closed p]"])
    show "set (pool ?st') \<subseteq> set (pool st)"
      using pool_delete_sub [of g "pool st"] by (simp add: po)
    show "distinct (map fst (pool ?st'))"
      using d by (simp add: po AList.distinct_delete)
    show "\<not> dead (store ?st' r')" if "(g', r') \<in> set (pool ?st')" for g' r'
      using that nd [of g' r'] by (auto simp: po on_close_def set_delete split: if_splits)
    show "about e < nextProc st" if "e \<in> set [Closed p]" for e
      using that i2 [OF l] by auto
    show "about e \<noteq> process (store st r')"
      if "e \<in> set [Closed p]" "(g', r') \<in> set (pool ?st')" for e g' r'
    proof
      assume eq: "about e = process (store st r')"
      from that(2) have m': "(g', r') \<in> set (pool st)"
        using pool_delete_sub [of g "pool st"] by (auto simp: po split: if_splits)
      from that(1) eq have "process (store st r') = p" by auto
      with pool_inv_owner [OF inv l m'] have same: "g' = g" "r' = r" by simp_all
      with m' d have "map_of (pool st) g = Some r" by simp
      with that(2) same show False by (simp add: po set_delete)
    qed
  qed (simp_all add: on_close_def)
qed

lemma pool_inv_error:
  assumes inv: "pool_inv st" and l: "listeners st p = Some (g, r)"
  shows "pool_inv (on_error g r (st\<lparr>trace := trace st @ [Errored p]\<rparr>))"
proof -
  let ?st' = "on_error g r (st\<lparr>trace := trace st @ [Errored p]\<rparr>)"
  from inv have d: "distinct (map fst (pool st))"
    and nd: "\<And>g r. (g, r) \<in> set (pool st) \<Longrightarrow> \<not> dead (store st r)"
    and i2: "\<And>p g r. listeners st p = Some (g, r) \<Longrightarrow> p < nextProc st"
    by (auto simp: pool_inv_def)
  have po: "pool ?st' = (if map_of (pool st) g = Some r
                          then AList.delete g (pool st) else pool st)"
    by (simp add: on_error_def Let_def)
  have sto: "store ?st' = (store st)(r := (store st r)\<lparr>dead := True\<rparr>)"
    by (simp add: on_error_def Let_def)
  have gone: False if "(g', r') \<in> set (pool ?st')"
    and "process (store st r') = p \<or> r' = r" for g' r'
  proof -
    from that(1) have m': "(g', r') \<in> set (pool st)"
      using pool_delete_sub [of g "pool st"] by (auto simp: po split: if_splits)
    from pool_inv_owner [OF inv l m' that(2)] have same: "g' = g" "r' = r" by simp_all
    with m' d have "map_of (pool st) g = Some r" by simp
    with that(1) same show False by (simp add: po set_delete)
  qed
  show ?thesis
  proof (rule pool_inv_remove [OF inv, where tr' = "[Errored p]"])
    show "set (pool ?st') \<subseteq> set (pool st)"
      using pool_delete_sub [of g "pool st"] by (simp add: po)
    show "distinct (map fst (pool ?st'))"
      using d by (simp add: po AList.distinct_delete)
    show "process (store ?st' r') = process (store st r')" for r'
      by (simp add: sto)
    show "\<not> dead (store ?st' r')" if m: "(g', r') \<in> set (pool ?st')" for g' r'
    proof -
      from gone [OF m] have "r' \<noteq> r" by blast
      moreover from m have "(g', r') \<in> set (pool st)"
        using pool_delete_sub [of g "pool st"] by (auto simp: po split: if_splits)
      ultimately show ?thesis using nd [of g' r'] by (simp add: sto)
    qed
    show "about e < nextProc st" if "e \<in> set [Errored p]" for e
      using that i2 [OF l] by auto
    show "about e \<noteq> process (store st r')"
      if "e \<in> set [Errored p]" "(g', r') \<in> set (pool ?st')" for e g' r'
      using that(1) gone [OF that(2)] by auto
  qed (simp_all add: on_error_def Let_def)
qed

lemma pool_inv_step:
  assumes "pool_inv st"
  shows "pool_inv (step m ev st)"
proof (cases ev)
  case (Warm g args now)
  then show ?thesis using assms by (simp add: pool_inv_warm)
next
  case (Acquire g)
  then show ?thesis using assms by (simp add: pool_inv_acquire)
next
  case (TimerFires k)
  then show ?thesis using assms
    by (simp add: pool_inv_evict pool_inv_timers split: option.splits)
next
  case (ProcClose p)
  then show ?thesis using assms
    by (auto simp: pool_inv_close split: option.splits)
next
  case (ProcError p)
  then show ?thesis using assms
    by (auto simp: pool_inv_error split: option.splits)
next
  case Shutdown
  then show ?thesis using assms by (simp add: pool_inv_shutdown)
qed

lemma pool_inv_run: "pool_inv st \<Longrightarrow> pool_inv (run m evs st)"
  unfolding run_def by (induction evs arbitrary: st) (simp_all add: pool_inv_step)

lemma pool_inv_reachable: "pool_inv (run m evs empty_pool)"
  by (rule pool_inv_run [OF pool_inv_empty])

lemma slots_one:
  "distinct (map fst al) \<Longrightarrow> map_of al g = Some r \<Longrightarrow> length (filter (\<lambda>e. fst e = g) al) = 1"
proof (induction al)
  case Nil
  then show ?case by simp
next
  case (Cons a al)
  show ?case
  proof (cases "fst a = g")
    case True
    with Cons.prems have "g \<notin> fst ` set al" by auto
    then have "filter (\<lambda>e. fst e = g) al = []" by (auto simp: filter_empty_conv)
    with True show ?thesis by simp
  next
    case False
    with Cons show ?thesis by (cases a) auto
  qed
qed

lemma warm_has: "map_of (pool (warmContainer m g a n st)) g \<noteq> None"
  by (simp add: warmContainer_def Let_def AList.update_conv')

lemma warm_again: "warmContainer m g a2 n2 (warmContainer m g a1 n1 st) = warmContainer m g a1 n1 st"
  using warm_has [of m g a1 n1 st] by (simp add: warmContainer_def [of m g a2 n2])

lemma warm_spawns:
  "spawns (trace (warmContainer m g a n st)) =
     spawns (trace st) + (if map_of (pool st) g = None then 1 else 0)"
  by (simp add: warmContainer_def Let_def spawns_def)

lemma run_append: "run m (evs @ evs') st = run m evs' (run m evs st)"
  by (simp add: run_def)

lemma run_Cons: "run m (ev # evs) st = run m evs (step m ev st)"
  by (simp add: run_def)

lemma run_Nil: "run m [] st = st"
  by (simp add: run_def)

lemma warm_twice_example:
  "pool (run 1000 [Warm ''g'' [''run''] 7, Warm ''g'' [''other''] 8] empty_pool) = [(''g'', 0)]
 \<and> trace (run 1000 [Warm ''g'' [''run''] 7, Warm ''g'' [''other''] 8] empty_pool) =
     [Spawn 0 [''run'']]"
  by (simp add: run_def warmContainer_def empty_pool_def Let_def)

text \<open>
  C1. Two calls of \<open>warmContainer\<close> for the same group in direct succession, with the same
  or with different container arguments: the second call changes nothing, because the
  map holds a slot for the group after the first. From any state, the two calls together
  spawn one process if the group had no slot and none if it had one. In every state the
  pool can reach, the map then holds exactly one entry for the group, and the process of
  that entry has been spawned and is untouched.
\<close>

theorem warmContainer_twice:
  "warmContainer m g a2 n2 (warmContainer m g a1 n1 st) = warmContainer m g a1 n1 st
 \<and> map_of (pool (warmContainer m g a2 n2 (warmContainer m g a1 n1 st))) g \<noteq> None
 \<and> spawns (trace (warmContainer m g a2 n2 (warmContainer m g a1 n1 st))) =
     spawns (trace st) + (if map_of (pool st) g = None then 1 else 0)
 \<and> slots g (run m (evs @ [Warm g a1 n1, Warm g a2 n2]) empty_pool) = 1
 \<and> (\<exists>r. map_of (pool (run m (evs @ [Warm g a1 n1, Warm g a2 n2]) empty_pool)) g = Some r
      \<and> untouched (process (store (run m (evs @ [Warm g a1 n1, Warm g a2 n2]) empty_pool) r))
           (trace (run m (evs @ [Warm g a1 n1, Warm g a2 n2]) empty_pool)))"
proof -
  let ?st2 = "run m (evs @ [Warm g a1 n1, Warm g a2 n2]) empty_pool"
  have inv: "pool_inv ?st2" by (rule pool_inv_reachable)
  have "?st2 = warmContainer m g a2 n2 (warmContainer m g a1 n1 (run m evs empty_pool))"
    by (simp add: run_append run_Cons run_Nil)
  then have "map_of (pool ?st2) g \<noteq> None" by (simp add: warm_has)
  then obtain r where r: "map_of (pool ?st2) g = Some r" by blast
  from inv have d: "distinct (map fst (pool ?st2))" by (simp add: pool_inv_def)
  have one: "slots g ?st2 = 1"
    unfolding slots_def using slots_one [OF d r] .
  from r have "(g, r) \<in> set (pool ?st2)" by (rule map_of_SomeD)
  with inv have "untouched (process (store ?st2 r)) (trace ?st2)"
    unfolding pool_inv_def by blast
  with r one show ?thesis
    using warm_again [of m g a2 n2 a1 n1 st] warm_has [of m g a1 n1 st]
      warm_spawns [of m g a1 n1 st]
    by simp
qed

lemma acquire_pool_inv_live:
  assumes "pool_inv st" "fst (acquireWarmContainer g st) = Some p"
  shows "untouched p (trace st)"
proof -
  from assms(2) obtain r where r: "map_of (pool st) g = Some r"
    and p: "p = process (store st r)"
    by (auto simp: acquireWarmContainer_def Let_def split: option.splits if_splits)
  from r have "(g, r) \<in> set (pool st)" by (rule map_of_SomeD)
  with assms(1) p show ?thesis unfolding pool_inv_def by blast
qed

lemma evict_gone: "map_of (pool (evict g st)) g = None"
  by (cases "map_of (pool st) g") (simp_all add: evict_def Let_def AList.delete_conv')

lemma gentle_append: "gentle (tr @ tr') \<longleftrightarrow> gentle tr \<and> gentle tr'"
  by (simp add: gentle_def)

lemma gentle_evict: "gentle (trace st) \<Longrightarrow> gentle (trace (evict g st))"
  by (cases "map_of (pool st) g") (simp_all add: evict_def Let_def gentle_append, simp add: gentle_def)

lemma gentle_step: "gentle (trace st) \<Longrightarrow> gentle (trace (step m ev st))"
proof (cases ev)
  case (Warm g args now)
  assume "gentle (trace st)"
  then show ?thesis using Warm
    by (simp add: warmContainer_def Let_def gentle_append) (simp add: gentle_def)
next
  case (Acquire g)
  assume "gentle (trace st)"
  then show ?thesis using Acquire
    by (simp add: acquireWarmContainer_def Let_def split: option.splits)
next
  case (TimerFires k)
  assume "gentle (trace st)"
  then show ?thesis using TimerFires
    by (cases "timers st k") (simp_all add: gentle_evict)
next
  case (ProcClose p)
  assume "gentle (trace st)"
  then show ?thesis using ProcClose
    by (auto simp: on_close_def gentle_append gentle_def split: option.splits)
next
  case (ProcError p)
  assume "gentle (trace st)"
  then show ?thesis using ProcError
    by (auto simp: on_error_def Let_def gentle_append gentle_def split: option.splits)
next
  case Shutdown
  assume g: "gentle (trace st)"
  have "gentle (trace s) \<Longrightarrow> gentle (trace (fold evict gs s))" for gs s
    by (induction gs arbitrary: s) (simp_all add: gentle_evict)
  with g show ?thesis using Shutdown by (simp add: shutdownPool_def)
qed

lemma gentle_run: "gentle (trace st) \<Longrightarrow> gentle (trace (run m evs st))"
  unfolding run_def by (induction evs arbitrary: st) (simp_all add: gentle_step)

lemma gentle_reachable: "gentle (trace (run m evs empty_pool))"
  by (rule gentle_run) (simp add: gentle_def empty_pool_def)

lemma gentle_Kill: "gentle tr \<Longrightarrow> Kill p s \<in> set tr \<Longrightarrow> s = ''SIGTERM''"
  by (auto simp: gentle_def list_all_iff)

lemma evicted1_trace:
  "trace evicted1 = [Spawn 0 [''run''], StdinEnd 0, Kill 0 ''SIGTERM'']"
  by (simp add: evicted1_def run_def warmContainer_def evict_def empty_pool_def Let_def clearTimeout_def)

lemma evicted1_idle: "timers evicted1 0 = None \<and> nextTimer evicted1 = 1 \<and> pool evicted1 = []"
  by (simp add: evicted1_def run_def warmContainer_def evict_def empty_pool_def Let_def clearTimeout_def)

lemma warm1_fields:
  "pool warm1 = [(''g'', 0)]" "timers warm1 0 = Some ''g''"
  "store warm1 0 = \<lparr>process = 0, createdAt = 7, idleTimer = Some 0, dead = False\<rparr>"
  "trace warm1 = [Spawn 0 [''run'']]"
  by (simp_all add: warm1_def warmContainer_def empty_pool_def Let_def)

text \<open>
  C9, as the code has it. \<open>evict\<close> of a group with a slot deletes the slot, clears its idle
  timer and, unless the entry is marked dead, closes the stdin of the process and sends it
  \<open>SIGTERM\<close>, once. The group has no slot afterwards, also when a pending idle timer of
  the group fires. There is no escalation: in every state the pool can reach, every signal
  the pool has sent is \<open>SIGTERM\<close>.
\<close>

theorem evict_spec:
  "(\<forall>r. map_of (pool st) g = Some r \<longrightarrow>
       pool (evict g st) = AList.delete g (pool st)
     \<and> timers (evict g st) = clearTimeout (idleTimer (store st r)) (timers st)
     \<and> trace (evict g st) = trace st @
         (if dead (store st r) then []
          else [StdinEnd (process (store st r)), Kill (process (store st r)) ''SIGTERM'']))
 \<and> map_of (pool (evict g st)) g = None
 \<and> (\<forall>k. timers st k = Some g \<longrightarrow> map_of (pool (step m (TimerFires k) st)) g = None)
 \<and> (\<forall>p s. Kill p s \<in> set (trace (run m evs empty_pool)) \<longrightarrow> s = ''SIGTERM'')"
proof -
  have a: "\<forall>k. timers st k = Some g \<longrightarrow> map_of (pool (step m (TimerFires k) st)) g = None"
    by (simp add: evict_gone)
  have b: "\<forall>p s. Kill p s \<in> set (trace (run m evs empty_pool)) \<longrightarrow> s = ''SIGTERM''"
    using gentle_Kill [OF gentle_reachable] by blast
  have c: "\<forall>r. map_of (pool st) g = Some r \<longrightarrow>
       pool (evict g st) = AList.delete g (pool st)
     \<and> timers (evict g st) = clearTimeout (idleTimer (store st r)) (timers st)
     \<and> trace (evict g st) = trace st @
         (if dead (store st r) then []
          else [StdinEnd (process (store st r)), Kill (process (store st r)) ''SIGTERM''])"
    by (simp add: evict_def Let_def)
  from a b c evict_gone [of g st] show ?thesis by blast
qed

theorem evict_spec_witness:
  "map_of (pool warm1) ''g'' = Some 0
 \<and> pool (evict ''g'' warm1) = []
 \<and> timers warm1 0 = Some ''g''
 \<and> timers (evict ''g'' warm1) 0 = None
 \<and> trace (evict ''g'' warm1) = [Spawn 0 [''run''], StdinEnd 0, Kill 0 ''SIGTERM'']
 \<and> map_of (pool (step 1000 (TimerFires 0) warm1)) ''g'' = None
 \<and> Kill 0 ''SIGTERM'' \<in> set (trace evicted1)"
proof -
  note T = evict_spec [of warm1 "''g''" 1000 "[Warm ''g'' [''run''] 7, TimerFires 0]"]
  have h: "map_of (pool warm1) ''g'' = Some 0" by (simp add: warm1_fields)
  from T h have e: "pool (evict ''g'' warm1) = AList.delete ''g'' (pool warm1)"
    "timers (evict ''g'' warm1) = clearTimeout (idleTimer (store warm1 0)) (timers warm1)"
    "trace (evict ''g'' warm1) = trace warm1 @
         (if dead (store warm1 0) then []
          else [StdinEnd (process (store warm1 0)), Kill (process (store warm1 0)) ''SIGTERM''])"
    by blast+
  from T warm1_fields(2) have f: "map_of (pool (step 1000 (TimerFires 0) warm1)) ''g'' = None"
    by blast
  show ?thesis
    using h f by (simp add: e warm1_fields clearTimeout_def evicted1_trace)
qed

text \<open>
  The claim that eviction escalates to a forceful signal when the process does not exit
  fails: after the idle timer of \<open>g\<close> fired, process 0 got \<open>SIGTERM\<close> and has not closed,
  no \<open>SIGKILL\<close> was sent, and the pool has neither a pending timer nor a slot left that
  could send one later (timer 0 is the only timer that was ever set).
\<close>

theorem evict_counterexample:
  "\<not> (Kill 0 ''SIGKILL'' \<in> set (trace evicted1) \<or> Closed 0 \<in> set (trace evicted1))
 \<and> timers evicted1 0 = None \<and> nextTimer evicted1 = 1 \<and> pool evicted1 = []"
  using evicted1_idle by (simp add: evicted1_trace)

lemma acquire_listed:
  assumes "pool_inv st" "fst (acquireWarmContainer g st) = Some p"
  shows "listeners st p \<noteq> None"
proof -
  from assms(2) obtain r where r: "map_of (pool st) g = Some r"
    and p: "p = process (store st r)"
    by (auto simp: acquireWarmContainer_def Let_def split: option.splits if_splits)
  from r have "(g, r) \<in> set (pool st)" by (rule map_of_SomeD)
  from pool_inv_listed(1) [OF assms(1) this] p show ?thesis by simp
qed

lemma untouched_Closed: "untouched p (tr @ [Closed p]) = False"
  by (simp add: untouched_def history_def)

lemma untouched_Errored: "untouched p (tr @ [Errored p]) = False"
  by (simp add: untouched_def history_def)

lemma trace_on_close: "trace (on_close g r s) = trace s"
  by (simp add: on_close_def)

lemma trace_on_error: "trace (on_error g r s) = trace s"
  by (simp add: on_error_def Let_def)

lemma acquire_after_death:
  assumes "ev = ProcClose p \<or> ev = ProcError p"
  shows "fst (acquireWarmContainer g (run m (evs @ [ev]) empty_pool)) \<noteq> Some p"
proof
  let ?st = "run m evs empty_pool" and ?st' = "run m (evs @ [ev]) empty_pool"
  assume a: "fst (acquireWarmContainer g ?st') = Some p"
  have st': "?st' = step m ev ?st" by (simp add: run_append run_Cons run_Nil)
  have live: "untouched p (trace ?st')"
    using acquire_pool_inv_live [OF pool_inv_reachable a] .
  show False
  proof (cases "listeners ?st p")
    case None
    with assms have "?st' = ?st" unfolding st' by auto
    with a acquire_listed [OF pool_inv_reachable, of g m evs p] None show False by simp
  next
    case (Some gr)
    obtain g0 r0 where gr: "gr = (g0, r0)" by (cases gr)
    from assms Some gr have "trace ?st' = trace ?st @ [Closed p]
        \<or> trace ?st' = trace ?st @ [Errored p]"
      unfolding st' by (auto simp: trace_on_close trace_on_error)
    with live show False by (auto simp: untouched_Closed untouched_Errored)
  qed
qed

text \<open>
  C2, as the code has it. \<open>acquireWarmContainer\<close>: with no slot for the group it returns
  null and changes nothing; with a slot marked dead it returns null and deletes the stale
  entry; with a slot not marked dead it returns the process of the slot, clears the idle
  timer of the slot and deletes the entry. In each case the group has no slot afterwards.
  After \<open>evict\<close>, also when the idle timer triggered it, it returns null. What the pool
  knows of a death is the \<open>close\<close> or \<open>error\<close> event of the process: in every state the pool
  can reach, a handle it returns belongs to a process that was spawned, that the pool has
  not signalled, and whose \<open>close\<close> or \<open>error\<close> event has not been delivered; in
  particular a process is never returned once its \<open>close\<close> or \<open>error\<close> event has been
  delivered.
\<close>

theorem acquireWarmContainer_spec:
  "(map_of (pool st) g = None \<longrightarrow> acquireWarmContainer g st = (None, st))
 \<and> (\<forall>r. map_of (pool st) g = Some r \<and> dead (store st r) \<longrightarrow>
       acquireWarmContainer g st = (None, st\<lparr>pool := AList.delete g (pool st)\<rparr>))
 \<and> (\<forall>r. map_of (pool st) g = Some r \<and> \<not> dead (store st r) \<longrightarrow>
       acquireWarmContainer g st =
         (Some (process (store st r)),
          st\<lparr>timers := clearTimeout (idleTimer (store st r)) (timers st),
             pool := AList.delete g (pool st)\<rparr>))
 \<and> map_of (pool (snd (acquireWarmContainer g st))) g = None
 \<and> fst (acquireWarmContainer g (evict g st)) = None
 \<and> (\<forall>k. timers st k = Some g \<longrightarrow>
       fst (acquireWarmContainer g (step m (TimerFires k) st)) = None)
 \<and> (\<forall>p. fst (acquireWarmContainer g (run m evs empty_pool)) = Some p \<longrightarrow>
       untouched p (trace (run m evs empty_pool)))
 \<and> (\<forall>p. fst (acquireWarmContainer g (run m (evs @ [ProcClose p]) empty_pool)) \<noteq> Some p
       \<and> fst (acquireWarmContainer g (run m (evs @ [ProcError p]) empty_pool)) \<noteq> Some p)"
proof -
  have a: "map_of (pool (snd (acquireWarmContainer g st))) g = None"
    by (cases "map_of (pool st) g")
      (simp_all add: acquireWarmContainer_def Let_def AList.delete_conv')
  have b: "fst (acquireWarmContainer g (evict g s)) = None" for s
    using evict_gone [of g s] by (simp add: acquireWarmContainer_def)
  have b': "\<forall>k. timers st k = Some g \<longrightarrow>
       fst (acquireWarmContainer g (step m (TimerFires k) st)) = None"
    by (simp add: b)
  have c: "untouched p (trace (run m evs empty_pool))"
    if "fst (acquireWarmContainer g (run m evs empty_pool)) = Some p" for p
    using acquire_pool_inv_live [OF pool_inv_reachable that] .
  have d: "fst (acquireWarmContainer g (run m (evs @ [ProcClose p]) empty_pool)) \<noteq> Some p"
    "fst (acquireWarmContainer g (run m (evs @ [ProcError p]) empty_pool)) \<noteq> Some p" for p
    by (rule acquire_after_death; simp)+
  have e: "(map_of (pool st) g = None \<longrightarrow> acquireWarmContainer g st = (None, st))
 \<and> (\<forall>r. map_of (pool st) g = Some r \<and> dead (store st r) \<longrightarrow>
       acquireWarmContainer g st = (None, st\<lparr>pool := AList.delete g (pool st)\<rparr>))
 \<and> (\<forall>r. map_of (pool st) g = Some r \<and> \<not> dead (store st r) \<longrightarrow>
       acquireWarmContainer g st =
         (Some (process (store st r)),
          st\<lparr>timers := clearTimeout (idleTimer (store st r)) (timers st),
             pool := AList.delete g (pool st)\<rparr>))"
    by (simp add: acquireWarmContainer_def Let_def)
  from a b [of st] b' c d e show ?thesis by blast
qed

theorem acquireWarmContainer_spec_witness:
  "map_of (pool warm1) ''h'' = None
 \<and> acquireWarmContainer ''h'' warm1 = (None, warm1)
 \<and> map_of (pool stale1) ''g'' = Some 0 \<and> dead (store stale1 0)
 \<and> fst (acquireWarmContainer ''g'' stale1) = None
 \<and> pool (snd (acquireWarmContainer ''g'' stale1)) = []
 \<and> map_of (pool warm1) ''g'' = Some 0 \<and> \<not> dead (store warm1 0)
 \<and> fst (acquireWarmContainer ''g'' warm1) = Some 0
 \<and> pool (snd (acquireWarmContainer ''g'' warm1)) = []
 \<and> timers (snd (acquireWarmContainer ''g'' warm1)) 0 = None
 \<and> timers warm1 0 = Some ''g''
 \<and> fst (acquireWarmContainer ''g'' (step 1000 (TimerFires 0) warm1)) = None
 \<and> fst (acquireWarmContainer ''g'' (run 1000 [Warm ''g'' [''run''] 7] empty_pool)) = Some 0
 \<and> untouched 0 (trace (run 1000 [Warm ''g'' [''run''] 7] empty_pool))
 \<and> fst (acquireWarmContainer ''g'' (run 1000 ([Warm ''g'' [''run''] 7] @ [ProcError 0]) empty_pool)) = None"
proof -
  note A = acquireWarmContainer_spec [of warm1 "''h''" 1000 "[Warm ''g'' [''run''] 7]"]
  note B = acquireWarmContainer_spec [of stale1 "''g''" 1000 "[Warm ''g'' [''run''] 7]"]
  note C = acquireWarmContainer_spec [of warm1 "''g''" 1000 "[Warm ''g'' [''run''] 7]"]
  have h1: "map_of (pool warm1) ''h'' = None" by (simp add: warm1_fields)
  have h2: "map_of (pool stale1) ''g'' = Some 0 \<and> dead (store stale1 0)"
    by (simp add: stale1_def empty_pool_def)
  have h3: "map_of (pool warm1) ''g'' = Some 0 \<and> \<not> dead (store warm1 0)"
    by (simp add: warm1_fields)
  have h4: "fst (acquireWarmContainer ''g'' (run 1000 [Warm ''g'' [''run''] 7] empty_pool)) = Some 0"
    by (simp add: run_def acquireWarmContainer_def warmContainer_def empty_pool_def Let_def)
  have h5: "fst (acquireWarmContainer ''g'' (run 1000 ([Warm ''g'' [''run''] 7] @ [ProcError 0]) empty_pool)) = None"
    by (simp add: run_def acquireWarmContainer_def warmContainer_def on_error_def empty_pool_def Let_def)
  from A h1 have a: "acquireWarmContainer ''h'' warm1 = (None, warm1)" by blast
  from B h2 have b: "acquireWarmContainer ''g'' stale1 =
      (None, stale1\<lparr>pool := AList.delete ''g'' (pool stale1)\<rparr>)" by blast
  from C h3 have c: "acquireWarmContainer ''g'' warm1 =
         (Some (process (store warm1 0)),
          warm1\<lparr>timers := clearTimeout (idleTimer (store warm1 0)) (timers warm1),
             pool := AList.delete ''g'' (pool warm1)\<rparr>)" by blast
  from C warm1_fields(2)
  have d: "fst (acquireWarmContainer ''g'' (step 1000 (TimerFires 0) warm1)) = None" by blast
  from C h4 have e: "untouched 0 (trace (run 1000 [Warm ''g'' [''run''] 7] empty_pool))" by blast
  have b2: "pool stale1 = [(''g'', 0)]" by (simp add: stale1_def)
  show ?thesis
    using h1 h2 h3 h4 h5 d e by (simp add: a b c b2 warm1_fields clearTimeout_def)
qed

text \<open>
  The claim that acquire never returns a dead handle after the death of the process
  fails between the death and its event: process 0 is spawned for \<open>g\<close> and dies (the
  runtime did not start, say) before its \<open>error\<close> or \<open>close\<close> event is delivered;
  \<open>acquireWarmContainer\<close> looks at the map and at \<open>entry.dead\<close> only and hands out
  process 0.
\<close>

theorem acquireWarmContainer_counterexample:
  "0 \<in> set (died (world_run 1000 [Pool (Warm ''g'' [''run''] 7), Dies 0] world0))
 \<and> fst (acquireWarmContainer ''g''
        (pool_of (world_run 1000 [Pool (Warm ''g'' [''run''] 7), Dies 0] world0))) = Some 0"
  by (simp add: world_run_def world0_def warmContainer_def acquireWarmContainer_def
      empty_pool_def Let_def)

section \<open>Properties of the IPC bridge\<close>

lemma waitLoop_skip:
  assumes "\<And>i. j \<le> i \<Longrightarrow> i < k \<Longrightarrow>
             pollInterval * int i < maxWait \<and> fs_at env files i f = None"
    and "j \<le> k"
  shows "waitLoop parse env f maxWait (pollInterval * int j) (fs_at env files j) =
         waitLoop parse env f maxWait (pollInterval * int k) (fs_at env files k)"
  using assms(2,1)
proof (induction k rule: dec_induct)
  case base
  show ?case by simp
next
  case (step n)
  have "waitLoop parse env f maxWait (pollInterval * int j) (fs_at env files j) =
        waitLoop parse env f maxWait (pollInterval * int n) (fs_at env files n)"
    using step.IH step.prems by simp
  also have "\<dots> = waitLoop parse env f maxWait (pollInterval * int n + pollInterval)
                     (env (pollInterval * int n) (fs_at env files n))"
    using step.prems [of n] step.hyps
    by (subst waitLoop.simps) simp
  also have "pollInterval * int n + pollInterval = pollInterval * int (Suc n)"
    by (simp add: algebra_simps)
  finally show ?case by simp
qed

lemma polls_iff: "pollInterval * int i < maxWait \<longleftrightarrow> i < polls maxWait"
  unfolding polls_def pollInterval_def by linarith

lemma resultFile_path:
  "resultFile requestId = ''/workspace/ipc/email_results/'' @ requestId @ ''.json''"
  by (simp add: resultFile_def EMAIL_RESULTS_DIR_def IPC_DIR_def path_join_def)

lemma wait_reach:
  assumes "k \<le> polls maxWait" "\<forall>i<k. fs_at env files i f = None"
  shows "waitLoop parse env f maxWait 0 files =
         waitLoop parse env f maxWait (pollInterval * int k) (fs_at env files k)"
proof -
  have "waitLoop parse env f maxWait (pollInterval * int 0) (fs_at env files 0) =
        waitLoop parse env f maxWait (pollInterval * int k) (fs_at env files k)"
  proof (rule waitLoop_skip)
    fix i assume "0 \<le> i" "i < k"
    with assms show "pollInterval * int i < maxWait \<and> fs_at env files i f = None"
      by (simp add: polls_iff)
  qed simp
  then show ?thesis by simp
qed

lemma wait_found:
  assumes "k < polls maxWait" "\<forall>i<k. fs_at env files i f = None"
    and "fs_at env files k f = Some c"
  shows "waitLoop parse env f maxWait 0 files =
        (case parse c of
           Inr j \<Rightarrow> (Result j, (fs_at env files k)(f := None))
         | Inl e \<Rightarrow> (Failure (''Failed to read result: '' @ e), fs_at env files k))"
proof -
  from assms(1) have lt: "pollInterval * int k < maxWait" by (simp add: polls_iff)
  have "waitLoop parse env f maxWait 0 files =
        waitLoop parse env f maxWait (pollInterval * int k) (fs_at env files k)"
    using wait_reach [of k maxWait env files f parse] assms(1,2) by simp
  also have "\<dots> = (case parse c of
           Inr j \<Rightarrow> (Result j, (fs_at env files k)(f := None))
         | Inl e \<Rightarrow> (Failure (''Failed to read result: '' @ e), fs_at env files k))"
    using lt assms(3) by (subst waitLoop.simps) simp
  finally show ?thesis .
qed

lemma wait_timeout:
  assumes "\<forall>i<polls maxWait. fs_at env files i f = None"
  shows "waitLoop parse env f maxWait 0 files =
         (Failure ''Request timed out'', fs_at env files (polls maxWait))"
proof -
  have ge: "\<not> pollInterval * int (polls maxWait) < maxWait" by (simp add: polls_iff)
  have "waitLoop parse env f maxWait 0 files =
        waitLoop parse env f maxWait (pollInterval * int (polls maxWait))
          (fs_at env files (polls maxWait))"
    using wait_reach [of "polls maxWait" maxWait env files f parse] assms by simp
  also have "\<dots> = (Failure ''Request timed out'', fs_at env files (polls maxWait))"
    using ge by (subst waitLoop.simps) simp
  finally show ?thesis .
qed

text \<open>
  C3, as the code has it. The request id has no path separator (the ids the module
  generates are digits, a dash and base-36 digits), so the file polled is
  \<open>/workspace/ipc/email_results/<requestId>.json\<close>. The file is looked for at the polls
  only, which are made at the counts 0, 500, 1000, \<dots> below \<open>maxWait\<close>. If it is there at
  one of these polls (and was not at the polls before), then: if its content parses, the
  parsed value is returned and the file is deleted, so it does not exist afterwards; if
  its content does not parse, a failure with the parse error is returned (and the file
  stays). If the file is there at none of these polls, the failure \<open>Request timed out\<close>
  is returned and the files are left as they are when the count reaches \<open>maxWait\<close>. The
  wait always returns.
\<close>

theorem waitForEmailResult_spec:
  assumes "CHR ''/'' \<notin> set requestId"
  shows
  "(\<forall>k c j. k < polls maxWait
        \<and> (\<forall>i<k. fs_at env files i (''/workspace/ipc/email_results/'' @ requestId @ ''.json'') = None)
        \<and> fs_at env files k (''/workspace/ipc/email_results/'' @ requestId @ ''.json'') = Some c
        \<and> parse c = Inr j \<longrightarrow>
      waitForEmailResult parse env requestId maxWait files =
        (Result j,
         (fs_at env files k)(''/workspace/ipc/email_results/'' @ requestId @ ''.json'' := None))
      \<and> snd (waitForEmailResult parse env requestId maxWait files)
            (''/workspace/ipc/email_results/'' @ requestId @ ''.json'') = None)
 \<and> (\<forall>k c e. k < polls maxWait
        \<and> (\<forall>i<k. fs_at env files i (''/workspace/ipc/email_results/'' @ requestId @ ''.json'') = None)
        \<and> fs_at env files k (''/workspace/ipc/email_results/'' @ requestId @ ''.json'') = Some c
        \<and> parse c = Inl e \<longrightarrow>
      waitForEmailResult parse env requestId maxWait files =
        (Failure (''Failed to read result: '' @ e), fs_at env files k))
 \<and> ((\<forall>i<polls maxWait.
         fs_at env files i (''/workspace/ipc/email_results/'' @ requestId @ ''.json'') = None) \<longrightarrow>
      waitForEmailResult parse env requestId maxWait files =
        (Failure ''Request timed out'', fs_at env files (polls maxWait)))"
proof -
  let ?f = "''/workspace/ipc/email_results/'' @ requestId @ ''.json''"
  have start: "waitForEmailResult parse env requestId maxWait files =
               waitLoop parse env ?f maxWait 0 files"
    by (simp add: waitForEmailResult_def resultFile_path)
  have ok: "waitForEmailResult parse env requestId maxWait files =
        (Result j, (fs_at env files k)(?f := None))
      \<and> snd (waitForEmailResult parse env requestId maxWait files) ?f = None"
    if "k < polls maxWait" "\<forall>i<k. fs_at env files i ?f = None"
      "fs_at env files k ?f = Some c" "parse c = Inr j" for k c j
    unfolding start using wait_found [OF that(1-3), of parse] that(4) by simp
  have bad: "waitForEmailResult parse env requestId maxWait files =
        (Failure (''Failed to read result: '' @ e), fs_at env files k)"
    if "k < polls maxWait" "\<forall>i<k. fs_at env files i ?f = None"
      "fs_at env files k ?f = Some c" "parse c = Inl e" for k c e
    unfolding start using wait_found [OF that(1-3), of parse] that(4) by simp
  have timeout: "waitForEmailResult parse env requestId maxWait files =
        (Failure ''Request timed out'', fs_at env files (polls maxWait))"
    if "\<forall>i<polls maxWait. fs_at env files i ?f = None"
    unfolding start using wait_timeout [OF that] .
  show ?thesis
    using ok bad timeout by blast
qed

lemma fs_at_arrives:
  "fs_at (arrives c) no_files 0 = no_files"
  "fs_at (arrives c) no_files (Suc 0) = no_files"
  "fs_at (arrives c) no_files (Suc (Suc 0)) =
     no_files(''/workspace/ipc/email_results/r1.json'' := Some c)"
  by (simp_all add: arrives_def pollInterval_def fun_eq_iff)

lemma fs_at_quiet: "fs_at (\<lambda>t files. files) no_files k = no_files"
  by (induction k) simp_all

theorem waitForEmailResult_spec_witness:
  "CHR ''/'' \<notin> set ''r1''
 \<and> Suc (Suc 0) < polls 30000
 \<and> fs_at (arrives ''{}'') no_files 0 ''/workspace/ipc/email_results/r1.json'' = None
 \<and> fs_at (arrives ''{}'') no_files (Suc 0) ''/workspace/ipc/email_results/r1.json'' = None
 \<and> fs_at (arrives ''{}'') no_files (Suc (Suc 0)) ''/workspace/ipc/email_results/r1.json'' =
     Some ''{}''
 \<and> parse0 ''{}'' = Inr ''empty object''
 \<and> fst (waitForEmailResult parse0 (arrives ''{}'') ''r1'' 30000 no_files) = Result ''empty object''
 \<and> snd (waitForEmailResult parse0 (arrives ''{}'') ''r1'' 30000 no_files)
      ''/workspace/ipc/email_results/r1.json'' = None
 \<and> parse0 ''{'' = Inl ''SyntaxError''
 \<and> waitForEmailResult parse0 (arrives ''{'') ''r1'' 30000 no_files =
     (Failure ''Failed to read result: SyntaxError'',
      no_files(''/workspace/ipc/email_results/r1.json'' := Some ''{''))
 \<and> waitForEmailResult parse0 (\<lambda>t files. files) ''r1'' 30000 no_files =
     (Failure ''Request timed out'', no_files)"
proof -
  have s: "CHR ''/'' \<notin> set ''r1''" by simp
  note A = waitForEmailResult_spec [OF s, of 30000 "arrives ''{}''" no_files parse0]
  note B = waitForEmailResult_spec [OF s, of 30000 "arrives ''{''" no_files parse0]
  note C = waitForEmailResult_spec [OF s, of 30000 "\<lambda>t files. files" no_files parse0]
  have f: "''/workspace/ipc/email_results/'' @ ''r1'' @ ''.json'' =
           ''/workspace/ipc/email_results/r1.json''" by simp
  have p: "Suc (Suc 0) < polls 30000" by (simp add: polls_def)
  have n: "no_files ''/workspace/ipc/email_results/r1.json'' = None" by (simp add: no_files_def)
  have before: "\<forall>i<Suc (Suc 0).
      fs_at (arrives c) no_files i ''/workspace/ipc/email_results/r1.json'' = None" for c
    using n by (simp add: less_Suc_eq arrives_def pollInterval_def)
  have q1: "parse0 ''{}'' = Inr ''empty object''" and q2: "parse0 ''{'' = Inl ''SyntaxError''"
    by (simp_all add: parse0_def)
  have at2: "fs_at (arrives c) no_files (Suc (Suc 0)) ''/workspace/ipc/email_results/r1.json'' =
             Some c" for c
    by (simp add: fs_at_arrives del: fs_at.simps)
  from A [unfolded f] p before [of "''{}''"] at2 [of "''{}''"] q1
  have a: "waitForEmailResult parse0 (arrives ''{}'') ''r1'' 30000 no_files =
        (Result ''empty object'',
         (fs_at (arrives ''{}'') no_files (Suc (Suc 0)))(''/workspace/ipc/email_results/r1.json'' := None))
      \<and> snd (waitForEmailResult parse0 (arrives ''{}'') ''r1'' 30000 no_files)
            ''/workspace/ipc/email_results/r1.json'' = None"
    by blast
  from B [unfolded f] p before [of "''{''"] at2 [of "''{''"] q2
  have b: "waitForEmailResult parse0 (arrives ''{'') ''r1'' 30000 no_files =
        (Failure (''Failed to read result: '' @ ''SyntaxError''),
         fs_at (arrives ''{'') no_files (Suc (Suc 0)))"
    by blast
  from C [unfolded f] n
  have c: "waitForEmailResult parse0 (\<lambda>t files. files) ''r1'' 30000 no_files =
        (Failure ''Request timed out'', fs_at (\<lambda>t files. files) no_files (polls 30000))"
    by (simp add: fs_at_quiet)
  show ?thesis
    using s p n q1 q2 a by (simp add: b c fs_at_arrives fs_at_quiet del: fs_at.simps)
qed

text \<open>
  The claim that a parsable result file which exists within the wait budget is returned
  and deleted fails for a file that arrives after the last poll. With a budget of 30000
  the last poll is at count 29500. A file that appears during the sleep that follows is
  there, with parsable content, when the count reaches 30000; the wait reports
  \<open>Request timed out\<close> and leaves the file where it is.
\<close>

lemma polls_30000: "polls 30000 = Suc 59"
  by (simp add: polls_def)

lemma late_other: "t \<noteq> 29500 \<Longrightarrow> late c t files = files"
  by (simp add: late_def)

lemma late_hit:
  "late c 29500 files = files(''/workspace/ipc/email_results/r1.json'' := Some c)"
  by (simp add: late_def)

lemma fs_at_late_before: "k \<le> 59 \<Longrightarrow> fs_at (late c) no_files k = no_files"
proof (induction k)
  case 0
  show ?case by simp
next
  case (Suc k)
  then have ih: "fs_at (late c) no_files k = no_files" and k: "k < 59" by simp_all
  have "fs_at (late c) no_files (Suc k) =
        late c (pollInterval * int k) (fs_at (late c) no_files k)"
    by (rule fs_at.simps(2))
  also have "\<dots> = late c (pollInterval * int k) no_files"
    by (simp only: ih)
  also have "\<dots> = no_files"
  proof (rule late_other)
    from k show "pollInterval * int k \<noteq> 29500" by (simp add: pollInterval_def)
  qed
  finally show ?case .
qed

lemma fs_at_late_end:
  "fs_at (late c) no_files (polls 30000) =
     no_files(''/workspace/ipc/email_results/r1.json'' := Some c)"
proof -
  have "fs_at (late c) no_files (Suc 59) =
        late c (pollInterval * int 59) (fs_at (late c) no_files 59)"
    by (rule fs_at.simps(2))
  also have "fs_at (late c) no_files 59 = no_files"
    by (rule fs_at_late_before) simp
  also have "pollInterval * int 59 = 29500"
    by (simp add: pollInterval_def)
  also have "late c 29500 no_files =
             no_files(''/workspace/ipc/email_results/r1.json'' := Some c)"
    by (rule late_hit)
  finally show ?thesis by (simp only: polls_30000)
qed

theorem waitForEmailResult_counterexample:
  "parse0 ''{}'' = Inr ''empty object''
 \<and> fs_at (late ''{}'') no_files (polls 30000) ''/workspace/ipc/email_results/r1.json'' =
     Some ''{}''
 \<and> waitForEmailResult parse0 (late ''{}'') ''r1'' 30000 no_files =
     (Failure ''Request timed out'',
      no_files(''/workspace/ipc/email_results/r1.json'' := Some ''{}''))"
proof -
  have none: "\<forall>i<polls 30000.
      fs_at (late ''{}'') no_files i ''/workspace/ipc/email_results/r1.json'' = None"
  proof (intro allI impI)
    fix i assume "i < polls 30000"
    then have "i \<le> 59" by (simp only: polls_30000 less_Suc_eq_le)
    then have "fs_at (late ''{}'') no_files i = no_files" by (rule fs_at_late_before)
    then show "fs_at (late ''{}'') no_files i ''/workspace/ipc/email_results/r1.json'' = None"
      by (simp add: no_files_def)
  qed
  have "waitForEmailResult parse0 (late ''{}'') ''r1'' 30000 no_files =
        waitLoop parse0 (late ''{}'') ''/workspace/ipc/email_results/r1.json'' 30000 0 no_files"
    by (simp add: waitForEmailResult_def resultFile_path)
  also have "\<dots> = (Failure ''Request timed out'', fs_at (late ''{}'') no_files (polls 30000))"
    using wait_timeout [OF none] .
  finally have w: "waitForEmailResult parse0 (late ''{}'') ''r1'' 30000 no_files =
        (Failure ''Request timed out'',
         no_files(''/workspace/ipc/email_results/r1.json'' := Some ''{}''))"
    by (simp only: fs_at_late_end)
  have p: "parse0 ''{}'' = Inr ''empty object''" by (simp add: parse0_def)
  have e: "fs_at (late ''{}'') no_files (polls 30000) ''/workspace/ipc/email_results/r1.json'' =
           Some ''{}''"
    by (simp only: fs_at_late_end fun_upd_same)
  from p e w show ?thesis by blast
qed

lemma exec_simps:
  "exec (Mkdir d) files = files"
  "exec (WriteFile p c) files = files(p := Some c)"
  "exec (Rename a b) files = (files(b := files a))(a := None)"
  by (simp_all add: exec_def last_map del: upt_Suc)

text \<open>
  C4. \<open>writeIpcFile\<close> writes the whole content to the temporary path and then renames
  it: in every file system that can be seen while it runs, the final path holds what it
  held before the call or the complete content, never a part of it. At the end the final
  path holds the complete content, the temporary path is gone and no other path has
  changed.
\<close>

theorem writeIpcFile_atomic:
  "(\<forall>s \<in> set (states (writeIpcFile_ops w stringify dir data) files).
      s (path_join dir (ipcFilename w)) = files (path_join dir (ipcFilename w))
    \<or> s (path_join dir (ipcFilename w)) = Some (stringify data))
 \<and> snd (writeIpcFile w stringify dir data files) (path_join dir (ipcFilename w)) =
     Some (stringify data)
 \<and> snd (writeIpcFile w stringify dir data files) (path_join dir (ipcFilename w) @ ''.tmp'') = None
 \<and> last (states (writeIpcFile_ops w stringify dir data) files) =
     snd (writeIpcFile w stringify dir data files)
 \<and> (\<forall>p. p \<noteq> path_join dir (ipcFilename w) \<and> p \<noteq> path_join dir (ipcFilename w) @ ''.tmp'' \<longrightarrow>
       snd (writeIpcFile w stringify dir data files) p = files p)"
  by (auto simp: writeIpcFile_ops_def writeIpcFile_def Let_def exec_simps simp del: upt_Suc)

lemma ipcFilename_clock1: "ipcFilename clock1 = ''1700000000123-k3x9qa.json''"
  by (simp add: ipcFilename_def clock1_def decimal.simps)

theorem writeIpcFile_atomic_witness:
  "old_files(''/workspace/ipc/tasks/1700000000123-k3x9qa.json.tmp'' := Some ''{'')
     \<in> set (states (writeIpcFile_ops clock1 (\<lambda>d. d) TASKS_DIR ''{}'') old_files)
 \<and> (old_files(''/workspace/ipc/tasks/1700000000123-k3x9qa.json.tmp'' := Some ''{''))
       ''/workspace/ipc/tasks/1700000000123-k3x9qa.json'' = None
 \<and> snd (writeIpcFile clock1 (\<lambda>d. d) TASKS_DIR ''{}'' old_files)
       ''/workspace/ipc/tasks/1700000000123-k3x9qa.json'' = Some ''{}''
 \<and> snd (writeIpcFile clock1 (\<lambda>d. d) TASKS_DIR ''{}'' old_files)
       ''/workspace/ipc/tasks/1700000000123-k3x9qa.json.tmp'' = None
 \<and> snd (writeIpcFile clock1 (\<lambda>d. d) TASKS_DIR ''{}'' old_files)
       ''/workspace/ipc/tasks/old.json'' = Some ''[]''"
proof -
  note T = writeIpcFile_atomic [of clock1 "\<lambda>d. d" TASKS_DIR "''{}''" old_files]
  have path: "path_join TASKS_DIR (ipcFilename clock1) =
              ''/workspace/ipc/tasks/1700000000123-k3x9qa.json''"
    by (simp add: ipcFilename_clock1 TASKS_DIR_def IPC_DIR_def path_join_def)
  have m: "old_files(''/workspace/ipc/tasks/1700000000123-k3x9qa.json.tmp'' := Some ''{'')
     \<in> set (states (writeIpcFile_ops clock1 (\<lambda>d. d) TASKS_DIR ''{}'') old_files)"
    by (simp add: writeIpcFile_ops_def Let_def path exec_simps)
  from T m have
    "(old_files(''/workspace/ipc/tasks/1700000000123-k3x9qa.json.tmp'' := Some ''{''))
        (path_join TASKS_DIR (ipcFilename clock1)) = old_files (path_join TASKS_DIR (ipcFilename clock1))
     \<or> (old_files(''/workspace/ipc/tasks/1700000000123-k3x9qa.json.tmp'' := Some ''{''))
        (path_join TASKS_DIR (ipcFilename clock1)) = Some ''{}''"
    by blast
  moreover from T have
    "snd (writeIpcFile clock1 (\<lambda>d. d) TASKS_DIR ''{}'' old_files)
       (path_join TASKS_DIR (ipcFilename clock1)) = Some ''{}''"
    "snd (writeIpcFile clock1 (\<lambda>d. d) TASKS_DIR ''{}'' old_files)
       (path_join TASKS_DIR (ipcFilename clock1) @ ''.tmp'') = None"
    by blast+
  moreover have "''/workspace/ipc/tasks/old.json'' \<noteq> path_join TASKS_DIR (ipcFilename clock1)
      \<and> ''/workspace/ipc/tasks/old.json'' \<noteq> path_join TASKS_DIR (ipcFilename clock1) @ ''.tmp''"
    by (simp add: path)
  with T have "snd (writeIpcFile clock1 (\<lambda>d. d) TASKS_DIR ''{}'' old_files)
       ''/workspace/ipc/tasks/old.json'' = old_files ''/workspace/ipc/tasks/old.json''"
    by blast
  ultimately show ?thesis using m by (simp add: path old_files_def no_files_def)
qed

text \<open>
  What holds of the checks in \<open>schedule_task\<close>: they come before the write, a failed check
  returns an error and leaves the files alone, and a passed check writes the envelope.
\<close>

lemma schedule_task_rejects:
  "validate ps args = Some msg \<Longrightarrow>
   schedule_task ps w ctx args files = (\<lparr>content_text = msg, isError = True\<rparr>, files)"
  by (simp add: schedule_task_def)

lemma validate_accepts:
  "validate ps args = None \<longleftrightarrow>
     (case arg_schedule_type args of
        Cron \<Rightarrow> cronParses ps (arg_schedule_value args)
      | Interval \<Rightarrow> (\<exists>ms. parseInt10 (arg_schedule_value args) = Some ms \<and> 0 < ms)
      | Once \<Rightarrow> dateValid ps (arg_schedule_value args))"
  by (auto simp: validate_def split: schedule_kind.splits option.splits)

lemma schedule_task_accepts:
  "validate ps args = None \<Longrightarrow>
   schedule_task ps w ctx args files =
     (\<lparr>content_text = ''Task scheduled ('' @ ipcFilename w @ ''): '' @
          schedule_kind_str (arg_schedule_type args) @ '' - '' @ arg_schedule_value args,
       isError = False\<rparr>,
      (files(path_join TASKS_DIR (ipcFilename w) :=
               Some (json_stringify ps (schedule_task_data w ctx args))))
        (path_join TASKS_DIR (ipcFilename w) @ ''.tmp'' := None))"
  by (simp add: schedule_task_def writeIpcFile_def writeIpcFile_ops_def Let_def exec_simps)

lemma parseInt10_5min: "parseInt10 ''5min'' = Some 5"
  by (simp add: parseInt10_def isSpace_def isDigit_def digitVal_def Let_def)

text \<open>
  C7 requires an interval to be a positive integer and invalid input to be rejected.
  The check reads the value with \<open>parseInt\<close>, which stops at the first character that
  is not a digit: for the interval \<open>5min\<close> the handler reports no error, answers
  \<open>Task scheduled\<close> and writes an envelope whose \<open>schedule_value\<close> is \<open>5min\<close>.
\<close>

theorem schedule_task_interval_5min:
  "validate ps args_5min = None
 \<and> isError (fst (schedule_task ps w ctx args_5min files)) = False
 \<and> content_text (fst (schedule_task ps w ctx args_5min files)) =
     ''Task scheduled ('' @ ipcFilename w @ ''): interval - 5min''
 \<and> snd (schedule_task ps w ctx args_5min files) (path_join TASKS_DIR (ipcFilename w)) =
     Some (json_stringify ps (schedule_task_data w ctx args_5min))
 \<and> env_schedule_value (schedule_task_data w ctx args_5min) = ''5min''"
proof -
  have v: "validate ps args_5min = None"
    by (simp add: validate_def args_5min_def parseInt10_5min)
  show ?thesis
    using v by (simp add: schedule_task_accepts [OF v]) (simp add: args_5min_def schedule_task_data_def)
qed

lemma targetGroup_non_main: "\<not> isMain ctx \<Longrightarrow> targetGroup ctx args = groupFolder ctx"
  by (simp add: targetGroup_def split: option.splits)

lemma validate_target: "validate ps (args\<lparr>target_group := t\<rparr>) = validate ps args"
  by (cases "arg_schedule_type args") (simp_all add: validate_def split: option.splits)

lemma data_non_main:
  "\<not> isMain ctx \<Longrightarrow>
   schedule_task_data w ctx (args\<lparr>target_group := t\<rparr>) = schedule_task_data w ctx args"
  by (simp add: schedule_task_data_def targetGroup_def split: option.splits)

text \<open>
  C10. For a caller that is not the main group, the outcome of \<open>schedule_task\<close> (the
  answer and the files) does not depend on \<open>target_group\<close>; the \<open>groupFolder\<close> of the
  envelope is the caller's own group folder, and when the schedule value passes the
  checks this envelope is what the file in the tasks directory holds.
\<close>

theorem schedule_task_non_main:
  assumes "\<not> isMain ctx"
  shows "schedule_task ps w ctx (args\<lparr>target_group := t1\<rparr>) files =
         schedule_task ps w ctx (args\<lparr>target_group := t2\<rparr>) files
       \<and> env_groupFolder (schedule_task_data w ctx (args\<lparr>target_group := t1\<rparr>)) = groupFolder ctx
       \<and> (validate ps args = None \<longrightarrow>
            snd (schedule_task ps w ctx (args\<lparr>target_group := t1\<rparr>) files)
              (path_join TASKS_DIR (ipcFilename w)) =
            Some (json_stringify ps (schedule_task_data w ctx (args\<lparr>target_group := t1\<rparr>))))"
proof -
  have same: "schedule_task ps w ctx (args\<lparr>target_group := t\<rparr>) files =
              schedule_task ps w ctx args files" for t
    by (cases "validate ps args")
      (simp_all add: schedule_task_def validate_target data_non_main [OF assms])
  have g: "env_groupFolder (schedule_task_data w ctx (args\<lparr>target_group := t1\<rparr>)) = groupFolder ctx"
    by (simp add: schedule_task_data_def targetGroup_non_main [OF assms])
  have f: "snd (schedule_task ps w ctx (args\<lparr>target_group := t1\<rparr>) files)
              (path_join TASKS_DIR (ipcFilename w)) =
            Some (json_stringify ps (schedule_task_data w ctx (args\<lparr>target_group := t1\<rparr>)))"
    if "validate ps args = None"
  proof -
    from that have "validate ps (args\<lparr>target_group := t1\<rparr>) = None"
      by (simp add: validate_target)
    from schedule_task_accepts [OF this] show ?thesis by simp
  qed
  from same [of t1] same [of t2] g f show ?thesis by simp
qed

theorem schedule_task_non_main_witness:
  "\<not> isMain family
 \<and> validate parsers1 args1 = None
 \<and> schedule_task parsers1 clock1 family (args1\<lparr>target_group := Some ''main''\<rparr>) no_files =
   schedule_task parsers1 clock1 family (args1\<lparr>target_group := None\<rparr>) no_files
 \<and> env_groupFolder (schedule_task_data clock1 family (args1\<lparr>target_group := Some ''main''\<rparr>)) = ''family''
 \<and> snd (schedule_task parsers1 clock1 family (args1\<lparr>target_group := Some ''main''\<rparr>) no_files)
      ''/workspace/ipc/tasks/1700000000123-k3x9qa.json'' = Some ''family|cron|0 9 * * *''
 \<and> env_groupFolder (schedule_task_data clock1 (family\<lparr>isMain := True\<rparr>) args1) = ''main''"
proof -
  note T = schedule_task_non_main [where ctx = family and ps = parsers1 and w = clock1
      and args = args1 and ?t1.0 = "Some ''main''" and ?t2.0 = None and files = no_files]
  have h: "\<not> isMain family" by (simp add: family_def)
  have v: "validate parsers1 args1 = None"
    by (simp add: validate_def args1_def parsers1_def)
  have path: "path_join TASKS_DIR (ipcFilename clock1) =
              ''/workspace/ipc/tasks/1700000000123-k3x9qa.json''"
    by (simp add: ipcFilename_clock1 TASKS_DIR_def IPC_DIR_def path_join_def)
  have d: "json_stringify parsers1 (schedule_task_data clock1 family (args1\<lparr>target_group := Some ''main''\<rparr>)) =
           ''family|cron|0 9 * * *''"
    by (simp add: parsers1_def schedule_task_data_def targetGroup_def family_def args1_def)
  have m: "env_groupFolder (schedule_task_data clock1 (family\<lparr>isMain := True\<rparr>) args1) = ''main''"
    by (simp add: schedule_task_data_def targetGroup_def family_def args1_def)
  from T [OF h] v have a:
    "schedule_task parsers1 clock1 family (args1\<lparr>target_group := Some ''main''\<rparr>) no_files =
     schedule_task parsers1 clock1 family (args1\<lparr>target_group := None\<rparr>) no_files"
    "env_groupFolder (schedule_task_data clock1 family (args1\<lparr>target_group := Some ''main''\<rparr>)) =
     groupFolder family"
    "snd (schedule_task parsers1 clock1 family (args1\<lparr>target_group := Some ''main''\<rparr>) no_files)
       (path_join TASKS_DIR (ipcFilename clock1)) =
     Some (json_stringify parsers1 (schedule_task_data clock1 family (args1\<lparr>target_group := Some ''main''\<rparr>)))"
    by blast+
  have g: "groupFolder family = ''family''" by (simp add: family_def)
  from h v m a(1) a(2) [unfolded g] a(3) [unfolded path d] show ?thesis by blast
qed

end
